theory Spec2Isabelle
  imports Main "HOL-Library.Multiset" "HOL-Library.Char_ord" "HOL-Library.List_Lexorder"
begin

section \<open>Data model of the hostel allocation backend\<close>

text \<open>
  The tables are those of the migration (users, blocks, rooms, beds, applications,
  allocations, waitlist entries, audit logs), each kept as the list of its rows.
  Identities are the TEXT primary keys; \<open>orderBy: { id: 'asc' }\<close> is read as the
  lexicographic order on character codes.
\<close>

type_synonym ident = string

datatype user_role = STUDENT | WARDEN | ADMIN

datatype room_status = AVAILABLE | OCCUPIED | MAINTENANCE | RESERVED

datatype application_status = PENDING | IN_PROGRESS | ALLOCATED | REJECTED | WAITLISTED

datatype audit_action = CREATE | UPDATE | DELETE | ALLOCATE | DEALLOCATE | APPROVE | REJECT

record user =
  user_id :: ident
  user_name :: string
  user_email :: string
  user_role :: user_role

record block =
  block_id :: ident
  block_hostelId :: ident

record room =
  room_id :: ident
  room_blockId :: ident
  room_status :: room_status

record bed =
  bed_id :: ident
  bed_roomId :: ident
  bed_bedNumber :: int
  bed_occupiedBy :: "ident option"

text \<open>
  The \<open>preferences\<close> column is JSON. The engine reads two keys of it,
  \<open>preferredHostels\<close> and \<open>roomType\<close>, each of which may be missing; the column
  itself is read through \<open>application.preferences || {}\<close>, so a null value is a case too.
\<close>

record preferences =
  preferredHostels :: "ident list option"
  roomType :: "string option"

record application =
  app_id :: ident
  app_studentId :: ident
  app_preferences :: "preferences option"
  app_status :: application_status
  app_appliedAt :: int
  app_priorityCategory :: "string option"

text \<open>
  The object handed to the engine: the row, and the \<open>student\<close> relation when the row
  was loaded with \<open>include: { student: true }\<close> (\<open>None\<close>: the relation was not loaded,
  \<open>application.student\<close> is undefined).
\<close>

record application_obj =
  row :: application
  student :: "user option"

record allocation =
  alloc_id :: ident
  alloc_applicationId :: ident
  alloc_studentId :: ident
  alloc_roomId :: ident
  alloc_bedId :: ident
  alloc_allocatedBy :: ident

record waitlist_entry =
  wl_applicationId :: ident
  wl_rank :: int
  wl_hostelId :: "ident option"
  wl_roomType :: "string option"

record stats =
  allocated :: nat
  waitlisted :: nat
  errors :: nat

datatype audit_details =
    AllocationDetails ident ident ident ident bool
  | ManualDetails ident ident
  | BatchDetails stats

record audit_log =
  audit_actorId :: ident
  audit_action :: audit_action
  audit_targetType :: string
  audit_targetId :: ident
  audit_details :: audit_details

record store =
  users :: "user list"
  blocks :: "block list"
  rooms :: "room list"
  beds :: "bed list"
  applications :: "application list"
  allocations :: "allocation list"
  waitlistEntries :: "waitlist_entry list"
  auditLogs :: "audit_log list"

section \<open>Failures of the collaborators\<close>

text \<open>
  Every call to the store may raise (timeout, constraint violation, lost connection).
  Which call raises is not decided by the engine, so it is a parameter: \<open>fails e a op\<close>
  says that, while application \<open>a\<close> is processed, the store call \<open>op\<close> raises.
  \<open>lockOutcome e a b\<close> is what the \<open>FOR UPDATE SKIP LOCKED\<close> query does for bed \<open>b\<close>:
  it takes the row lock, skips the row because another transaction holds it, or raises.
  \<open>newAllocationId\<close> is the identity the store gives to a created allocation, and
  \<open>nullsFirst\<close> is where the store puts NULL under a descending sort.
\<close>

datatype error = StoreError | TypeError

datatype store_op =
    MarkInProgress
  | FindCandidates
  | UpdateBed
  | UpdateApplication
  | DeleteWaitlist
  | CreateAllocation
  | CreateAudit
  | Commit
  | FindMaxRank
  | UpsertWaitlist
  | MarkWaitlisted
  | ResetStatus

datatype lock_result = Acquired | Skipped | LockRaised

record env =
  fails :: "ident \<Rightarrow> store_op \<Rightarrow> bool"
  lockOutcome :: "ident \<Rightarrow> ident \<Rightarrow> lock_result"
  newAllocationId :: "ident \<Rightarrow> ident"
  nullsFirst :: bool
  findApplicationsFails :: bool
  batchAuditFails :: bool
  smtpFails :: "ident \<Rightarrow> bool"

section \<open>Candidate selection (allocateBed, lines 85-138)\<close>

definition preferredHostelsOf :: "application_obj \<Rightarrow> ident list" where
  "preferredHostelsOf application =
     (case app_preferences (row application) of
        None \<Rightarrow> []
      | Some p \<Rightarrow> (case preferredHostels p of None \<Rightarrow> [] | Some hs \<Rightarrow> hs))"

text \<open>
  \<open>roomType\<close> and \<open>priorityCategory\<close> are read as well, but the query that follows
  uses neither: the quota block for priority categories is a placeholder with no effect.
\<close>

definition roomTypeOf :: "application_obj \<Rightarrow> string" where
  "roomTypeOf application =
     (case app_preferences (row application) of
        None \<Rightarrow> ''STANDARD''
      | Some p \<Rightarrow> (case roomType p of
                     None \<Rightarrow> ''STANDARD''
                   | Some t \<Rightarrow> if t = [] then ''STANDARD'' else t))"

definition findBlock :: "store \<Rightarrow> ident \<Rightarrow> block option" where
  "findBlock s i = find (\<lambda>b. block_id b = i) (blocks s)"

definition findRoom :: "store \<Rightarrow> ident \<Rightarrow> room option" where
  "findRoom s i = find (\<lambda>r. room_id r = i) (rooms s)"

text \<open>
  \<open>baseRoomFilter\<close>: the room is AVAILABLE and, only when the list of preferred hostels
  is not empty, the room's block belongs to one of them.
\<close>

definition baseRoomFilter :: "store \<Rightarrow> ident list \<Rightarrow> room \<Rightarrow> bool" where
  "baseRoomFilter s hostels r =
     (room_status r = AVAILABLE \<and>
      (if 0 < length hostels
       then (case findBlock s (room_blockId r) of
               None \<Rightarrow> False
             | Some blk \<Rightarrow> block_hostelId blk \<in> set hostels)
       else True))"

definition bedWhere :: "store \<Rightarrow> ident list \<Rightarrow> bed \<Rightarrow> bool" where
  "bedWhere s hostels b =
     (bed_occupiedBy b = None \<and>
      (case findRoom s (bed_roomId b) of
         None \<Rightarrow> False
       | Some r \<Rightarrow> baseRoomFilter s hostels r))"

definition candidateBeds :: "store \<Rightarrow> application_obj \<Rightarrow> bed list" where
  "candidateBeds s application =
     take 10 (sort_key bed_id (filter (bedWhere s (preferredHostelsOf application)) (beds s)))"

section \<open>Store operations used by the engine\<close>

definition bindE :: "error + 'a \<Rightarrow> ('a \<Rightarrow> error + 'b) \<Rightarrow> error + 'b" where
  "bindE m f = (case m of Inl err \<Rightarrow> Inl err | Inr x \<Rightarrow> f x)"

text \<open>
  \<open>update\<close> with a unique \<open>where\<close> raises when no row has that identity; so do all
  calls when the store fails (\<open>failing\<close>).
\<close>

definition bedUpdate :: "bool \<Rightarrow> ident \<Rightarrow> ident \<Rightarrow> store \<Rightarrow> error + store" where
  "bedUpdate failing i occupant s =
     (if failing \<or> find (\<lambda>b. bed_id b = i) (beds s) = None then Inl StoreError
      else Inr (s\<lparr>beds := map (\<lambda>b. if bed_id b = i then b\<lparr>bed_occupiedBy := Some occupant\<rparr> else b)
                              (beds s)\<rparr>))"

definition applicationUpdate ::
  "bool \<Rightarrow> ident \<Rightarrow> application_status \<Rightarrow> store \<Rightarrow> error + store" where
  "applicationUpdate failing i st s =
     (if failing \<or> find (\<lambda>r. app_id r = i) (applications s) = None then Inl StoreError
      else Inr (s\<lparr>applications := map (\<lambda>r. if app_id r = i then r\<lparr>app_status := st\<rparr> else r)
                                      (applications s)\<rparr>))"

definition waitlistDeleteMany :: "bool \<Rightarrow> ident \<Rightarrow> store \<Rightarrow> error + store" where
  "waitlistDeleteMany failing a s =
     (if failing then Inl StoreError
      else Inr (s\<lparr>waitlistEntries := filter (\<lambda>w. wl_applicationId w \<noteq> a) (waitlistEntries s)\<rparr>))"

definition allocationCreate :: "bool \<Rightarrow> allocation \<Rightarrow> store \<Rightarrow> error + store" where
  "allocationCreate failing al s =
     (if failing then Inl StoreError else Inr (s\<lparr>allocations := allocations s @ [al]\<rparr>))"

definition auditLogCreate :: "bool \<Rightarrow> audit_log \<Rightarrow> store \<Rightarrow> error + store" where
  "auditLogCreate failing l s =
     (if failing then Inl StoreError else Inr (s\<lparr>auditLogs := auditLogs s @ [l]\<rparr>))"

text \<open>
  \<open>prisma.$transaction\<close>: the body works on its own view of the store; its writes
  become the store when the body returns and the commit succeeds, and are dropped when
  the body or the commit raises.
\<close>

definition transaction ::
  "bool \<Rightarrow> (store \<Rightarrow> error + ('a \<times> store)) \<Rightarrow> store \<Rightarrow> (error + 'a) \<times> store" where
  "transaction commitFails body s =
     (case body s of
        Inl err \<Rightarrow> (Inl err, s)
      | Inr (r, s') \<Rightarrow> if commitFails then (Inl StoreError, s) else (Inr r, s'))"

section \<open>allocateBed (lines 85-254)\<close>

text \<open>
  The raw query \<open>SELECT id FROM beds WHERE id = $1 AND occupied_by IS NULL FOR UPDATE
  SKIP LOCKED LIMIT 1\<close> and the loop around it: a candidate whose query raises or comes
  back empty is passed over, the first one whose row is returned is the locked bed.
\<close>

definition lockQuery :: "env \<Rightarrow> ident \<Rightarrow> store \<Rightarrow> ident \<Rightarrow> error + ident list" where
  "lockQuery e a s i =
     (case lockOutcome e a i of
        LockRaised \<Rightarrow> Inl StoreError
      | Skipped \<Rightarrow> Inr []
      | Acquired \<Rightarrow>
          Inr (map bed_id (take 1 (filter (\<lambda>b. bed_id b = i \<and> bed_occupiedBy b = None) (beds s)))))"

fun lockLoop :: "env \<Rightarrow> ident \<Rightarrow> store \<Rightarrow> bed list \<Rightarrow> bed option" where
  "lockLoop e a s [] = None"
| "lockLoop e a s (candidate # rest) =
     (case lockQuery e a s (bed_id candidate) of
        Inl err \<Rightarrow> lockLoop e a s rest
      | Inr locked \<Rightarrow> if 0 < length locked then Some candidate else lockLoop e a s rest)"

record tx_result =
  res_allocation :: allocation
  res_bed :: bed

definition allocateWrites ::
  "env \<Rightarrow> application_obj \<Rightarrow> ident \<Rightarrow> bed \<Rightarrow> store \<Rightarrow> error + (tx_result option \<times> store)" where
  "allocateWrites e application allocatedBy lockedBed s =
     (let a = app_id (row application);
          sid = app_studentId (row application);
          al = \<lparr>alloc_id = newAllocationId e a, alloc_applicationId = a, alloc_studentId = sid,
                alloc_roomId = bed_roomId lockedBed, alloc_bedId = bed_id lockedBed,
                alloc_allocatedBy = allocatedBy\<rparr>;
          lg = \<lparr>audit_actorId = allocatedBy, audit_action = ALLOCATE,
                audit_targetType = ''ALLOCATION'', audit_targetId = alloc_id al,
                audit_details = AllocationDetails a sid (bed_roomId lockedBed) (bed_id lockedBed) True\<rparr>
      in bindE (bedUpdate (fails e a UpdateBed) (bed_id lockedBed) sid s) (\<lambda>s1.
         bindE (applicationUpdate (fails e a UpdateApplication) a ALLOCATED s1) (\<lambda>s2.
         bindE (waitlistDeleteMany (fails e a DeleteWaitlist) a s2) (\<lambda>s3.
         bindE (allocationCreate (fails e a CreateAllocation) al s3) (\<lambda>s4.
         bindE (auditLogCreate (fails e a CreateAudit) lg s4) (\<lambda>s5.
         Inr (Some \<lparr>res_allocation = al,
                    res_bed = lockedBed\<lparr>bed_occupiedBy := Some sid\<rparr>\<rparr>, s5)))))))"

definition allocateTx ::
  "env \<Rightarrow> application_obj \<Rightarrow> ident \<Rightarrow> store \<Rightarrow> error + (tx_result option \<times> store)" where
  "allocateTx e application allocatedBy s =
     (let a = app_id (row application) in
      if fails e a FindCandidates then Inl StoreError
      else let candidates = candidateBeds s application in
        if length candidates = 0 then Inr (None, s)
        else (case lockLoop e a s candidates of
                None \<Rightarrow> Inr (None, s)
              | Some lockedBed \<Rightarrow> allocateWrites e application allocatedBy lockedBed s))"

text \<open>
  \<open>sendEmail\<close> catches every failure of the transport and answers with a boolean.
  The call \<open>sendAllocationNotification(application.student.email, ...)\<close> itself reads
  the \<open>student\<close> relation of the object, and raises a TypeError when it is absent.
  (The room, block and hostel it also reads come with the updated bed, through the
  \<open>include\<close> of the update.)
\<close>

definition sendEmail :: "env \<Rightarrow> ident \<Rightarrow> bool" where
  "sendEmail e a = (\<not> smtpFails e a)"

definition sendAllocationNotification :: "env \<Rightarrow> application_obj \<Rightarrow> error + bool" where
  "sendAllocationNotification e application =
     (case student application of
        None \<Rightarrow> Inl TypeError
      | Some u \<Rightarrow> Inr (sendEmail e (app_id (row application))))"

text \<open>
  The transaction and the notification are inside one \<open>try\<close>; its \<open>catch\<close> logs and
  returns false. The result is the boolean and the store as it is afterwards.
\<close>

definition allocateBed :: "env \<Rightarrow> store \<Rightarrow> application_obj \<Rightarrow> ident \<Rightarrow> bool \<times> store" where
  "allocateBed e s application allocatedBy =
     (case transaction (fails e (app_id (row application)) Commit)
             (allocateTx e application allocatedBy) s of
        (Inl err, s') \<Rightarrow> (False, s')
      | (Inr None, s') \<Rightarrow> (False, s')
      | (Inr (Some result), s') \<Rightarrow>
          (case sendAllocationNotification e application of
             Inl err \<Rightarrow> (False, s')
           | Inr sent \<Rightarrow> (True, s')))"

section \<open>addToWaitlist (lines 259-292)\<close>

text \<open>
  \<open>findFirst({ where, orderBy: { rank: 'desc' } })\<close>: an entry of greatest rank among
  those the \<open>where\<close> keeps, or null when it keeps none.
\<close>

fun maxRankEntry :: "waitlist_entry list \<Rightarrow> waitlist_entry option" where
  "maxRankEntry [] = None"
| "maxRankEntry (w # ws) =
     (case maxRankEntry ws of
        None \<Rightarrow> Some w
      | Some m \<Rightarrow> if wl_rank m \<le> wl_rank w then Some w else Some m)"

text \<open>
  \<open>where: hostelId ? { hostelId } : {}\<close>: with a hostel identity that is a non-empty
  string the entries of that hostel, otherwise every entry of the table.
\<close>

definition rankScope :: "ident option \<Rightarrow> waitlist_entry \<Rightarrow> bool" where
  "rankScope hostelId w =
     (case hostelId of
        None \<Rightarrow> True
      | Some h \<Rightarrow> if h = [] then True else wl_hostelId w = Some h)"

definition waitlistUpsert ::
  "ident \<Rightarrow> int \<Rightarrow> ident option \<Rightarrow> string option \<Rightarrow> store \<Rightarrow> store" where
  "waitlistUpsert a newRank hostelId rt s =
     (if find (\<lambda>w. wl_applicationId w = a) (waitlistEntries s) = None
      then s\<lparr>waitlistEntries := waitlistEntries s @
               [\<lparr>wl_applicationId = a, wl_rank = newRank, wl_hostelId = hostelId, wl_roomType = rt\<rparr>]\<rparr>
      else s\<lparr>waitlistEntries :=
               map (\<lambda>w. if wl_applicationId w = a then w\<lparr>wl_rank := newRank\<rparr> else w)
                 (waitlistEntries s)\<rparr>)"

definition waitlistHostel :: "application_obj \<Rightarrow> ident option" where
  "waitlistHostel application =
     (case preferredHostelsOf application of [] \<Rightarrow> None | h # hs \<Rightarrow> Some h)"

definition waitlistRoomType :: "application_obj \<Rightarrow> string option" where
  "waitlistRoomType application =
     (case app_preferences (row application) of
        None \<Rightarrow> None
      | Some p \<Rightarrow> (case roomType p of
                     None \<Rightarrow> None
                   | Some t \<Rightarrow> if t = [] then None else Some t))"

definition newRank :: "store \<Rightarrow> application_obj \<Rightarrow> int" where
  "newRank s application =
     (case maxRankEntry (filter (rankScope (waitlistHostel application)) (waitlistEntries s)) of
        None \<Rightarrow> 1
      | Some m \<Rightarrow> wl_rank m + 1)"

text \<open>
  \<open>sendWaitlistNotification(application.student.email, application.student.name,
  newRank)\<close> reads the \<open>student\<close> relation like the allocation notification does.
\<close>

definition sendWaitlistNotification :: "env \<Rightarrow> application_obj \<Rightarrow> int \<Rightarrow> error + bool" where
  "sendWaitlistNotification e application rank =
     (case student application of
        None \<Rightarrow> Inl TypeError
      | Some u \<Rightarrow> Inr (sendEmail e (app_id (row application))))"

text \<open>
  The four steps are separate calls on the global client, not a transaction: a write
  that succeeded stays when a later step raises. So the store is returned in both cases.
\<close>

definition addToWaitlist :: "env \<Rightarrow> store \<Rightarrow> application_obj \<Rightarrow> (error + unit) \<times> store" where
  "addToWaitlist e s application =
     (let a = app_id (row application) in
      if fails e a FindMaxRank then (Inl StoreError, s)
      else if fails e a UpsertWaitlist then (Inl StoreError, s)
      else let s1 = waitlistUpsert a (newRank s application) (waitlistHostel application)
                      (waitlistRoomType application) s
        in (case applicationUpdate (fails e a MarkWaitlisted) a WAITLISTED s1 of
              Inl err \<Rightarrow> (Inl err, s1)
            | Inr s2 \<Rightarrow>
                (case sendWaitlistNotification e application (newRank s application) of
                   Inl err \<Rightarrow> (Inl err, s2)
                 | Inr sent \<Rightarrow> (Inr (), s2))))"

section \<open>runAllocation (lines 16-80)\<close>

text \<open>
  \<open>orderBy: [{ priorityCategory: 'desc' }, { appliedAt: 'asc' }]\<close>. The first key is
  the text of the category, compared as text, greatest first; the place of the rows
  without a category is the store's (\<open>nullsFirst\<close>). Rows equal in the first key are
  ordered by \<open>appliedAt\<close>, earliest first. Rows equal in both keys stay in table order.
\<close>

definition categoryBefore :: "bool \<Rightarrow> string option \<Rightarrow> string option \<Rightarrow> bool" where
  "categoryBefore nf c1 c2 =
     (case c1 of
        None \<Rightarrow> (case c2 of None \<Rightarrow> False | Some y \<Rightarrow> nf)
      | Some x \<Rightarrow> (case c2 of None \<Rightarrow> \<not> nf | Some y \<Rightarrow> y < x))"

definition orderedBefore :: "bool \<Rightarrow> application \<Rightarrow> application \<Rightarrow> bool" where
  "orderedBefore nf x y =
     (categoryBefore nf (app_priorityCategory x) (app_priorityCategory y) \<or>
      (app_priorityCategory x = app_priorityCategory y \<and> app_appliedAt x \<le> app_appliedAt y))"

fun insertOrdered :: "bool \<Rightarrow> application \<Rightarrow> application list \<Rightarrow> application list" where
  "insertOrdered nf x [] = [x]"
| "insertOrdered nf x (y # ys) =
     (if orderedBefore nf x y then x # y # ys else y # insertOrdered nf x ys)"

definition orderBy :: "bool \<Rightarrow> application list \<Rightarrow> application list" where
  "orderBy nf xs = foldr (insertOrdered nf) xs []"

definition selected :: "application \<Rightarrow> bool" where
  "selected r = (app_status r = PENDING \<or> app_status r = WAITLISTED)"

definition findStudent :: "store \<Rightarrow> ident \<Rightarrow> user option" where
  "findStudent s i = find (\<lambda>u. user_id u = i) (users s)"

definition findApplications :: "env \<Rightarrow> store \<Rightarrow> application_obj list" where
  "findApplications e s =
     map (\<lambda>r. \<lparr>row = r, student = findStudent s (app_studentId r)\<rparr>)
       (orderBy (nullsFirst e) (filter selected (applications s)))"

text \<open>The body of the inner \<open>try\<close>, for one application.\<close>

definition tryProcess ::
  "env \<Rightarrow> ident \<Rightarrow> application_obj \<Rightarrow> stats \<Rightarrow> store \<Rightarrow> (error + stats) \<times> store" where
  "tryProcess e allocatedBy application st s =
     (let a = app_id (row application) in
      case applicationUpdate (fails e a MarkInProgress) a IN_PROGRESS s of
        Inl err \<Rightarrow> (Inl err, s)
      | Inr s1 \<Rightarrow>
          (case allocateBed e s1 application allocatedBy of
             (True, s2) \<Rightarrow> (Inr (st\<lparr>allocated := allocated st + 1\<rparr>), s2)
           | (False, s2) \<Rightarrow>
               (case addToWaitlist e s2 application of
                  (Inl err, s3) \<Rightarrow> (Inl err, s3)
                | (Inr u, s3) \<Rightarrow> (Inr (st\<lparr>waitlisted := waitlisted st + 1\<rparr>), s3))))"

text \<open>
  The inner \<open>try\<close>/\<open>catch\<close>. The handler counts the error and writes the status back;
  that write is not guarded, so when it raises the exception leaves the loop.
\<close>

definition processApplication ::
  "env \<Rightarrow> ident \<Rightarrow> application_obj \<Rightarrow> stats \<Rightarrow> store \<Rightarrow> (error + stats) \<times> store" where
  "processApplication e allocatedBy application st s =
     (case tryProcess e allocatedBy application st s of
        (Inr st', s') \<Rightarrow> (Inr st', s')
      | (Inl err, s') \<Rightarrow>
          (case applicationUpdate (fails e (app_id (row application)) ResetStatus)
                  (app_id (row application))
                  (if app_status (row application) = WAITLISTED then WAITLISTED else PENDING) s' of
             Inl err2 \<Rightarrow> (Inl err2, s')
           | Inr s'' \<Rightarrow> (Inr (st\<lparr>errors := errors st + 1\<rparr>), s'')))"

fun forApplications ::
  "env \<Rightarrow> ident \<Rightarrow> application_obj list \<Rightarrow> stats \<Rightarrow> store \<Rightarrow> (error + stats) \<times> store" where
  "forApplications e allocatedBy [] st s = (Inr st, s)"
| "forApplications e allocatedBy (application # rest) st s =
     (case processApplication e allocatedBy application st s of
        (Inl err, s') \<Rightarrow> (Inl err, s')
      | (Inr st', s') \<Rightarrow> forApplications e allocatedBy rest st' s')"

text \<open>\<open>createAuditLog\<close> catches its own failure: the record is written or it is not.\<close>

definition createAuditLog ::
  "bool \<Rightarrow> ident \<Rightarrow> audit_action \<Rightarrow> string \<Rightarrow> ident \<Rightarrow> audit_details \<Rightarrow> store \<Rightarrow> store" where
  "createAuditLog failing actorId action targetType targetId details s =
     (case auditLogCreate failing
             \<lparr>audit_actorId = actorId, audit_action = action, audit_targetType = targetType,
              audit_targetId = targetId, audit_details = details\<rparr> s of
        Inl err \<Rightarrow> s
      | Inr s' \<Rightarrow> s')"

definition runAllocation :: "env \<Rightarrow> ident \<Rightarrow> store \<Rightarrow> (error + stats) \<times> store" where
  "runAllocation e allocatedBy s =
     (if findApplicationsFails e then (Inl StoreError, s)
      else (case forApplications e allocatedBy (findApplications e s)
                   \<lparr>allocated = 0, waitlisted = 0, errors = 0\<rparr> s of
              (Inl err, s') \<Rightarrow> (Inl err, s')
            | (Inr st, s') \<Rightarrow>
                (Inr st, createAuditLog (batchAuditFails e) allocatedBy CREATE ''ALLOCATION''
                           ''batch'' (BatchDetails st) s')))"

section \<open>Manual assignment (routes, POST /:id/assign)\<close>

text \<open>
  The handler of the administrative route: it checks the room, the student and the
  student's allocations, picks a bed of the room, and in one transaction occupies the
  bed, marks the student's PENDING or WAITLISTED application ALLOCATED (creating an
  ALLOCATED application when there is none), creates the allocation and the audit
  record. \<open>freshId\<close> and \<open>now\<close> are the identity and the time the store gives to a
  created application. Failures of the store inside the handler are left out: they go
  to the framework's error handler with the transaction dropped.
\<close>

datatype response = Created201 | BadRequest400 string | NotFound404 string | Failed500 string

definition falsy :: "ident option \<Rightarrow> bool" where
  "falsy v = (case v of None \<Rightarrow> True | Some x \<Rightarrow> x = [])"

definition pickBed :: "store \<Rightarrow> ident \<Rightarrow> int option \<Rightarrow> string + bed" where
  "pickBed s roomId bedNumber =
     (let roomBeds = filter (\<lambda>b. bed_roomId b = roomId) (beds s);
          anyFree = (case find (\<lambda>b. falsy (bed_occupiedBy b)) roomBeds of
                       None \<Rightarrow> Inl ''No available beds in this room''
                     | Some b \<Rightarrow> Inr b)
      in case bedNumber of
           None \<Rightarrow> anyFree
         | Some n \<Rightarrow>
             if n = 0 then anyFree
             else (case find (\<lambda>b. bed_bedNumber b = n \<and> falsy (bed_occupiedBy b)) roomBeds of
                     None \<Rightarrow> Inl ''Specified bed is not available''
                   | Some b \<Rightarrow> Inr b))"

definition assignTx ::
  "env \<Rightarrow> ident \<Rightarrow> int \<Rightarrow> ident \<Rightarrow> ident \<Rightarrow> bed \<Rightarrow> ident \<Rightarrow> store \<Rightarrow> string + store" where
  "assignTx e freshId now roomId studentId bd actor s =
     (case find (\<lambda>b. bed_id b = bed_id bd) (beds s) of
        None \<Rightarrow> Inl ''TypeError''
      | Some lockedBed \<Rightarrow>
          if \<not> falsy (bed_occupiedBy lockedBed) then Inl ''Bed is already occupied''
          else
            let s1 = s\<lparr>beds := map (\<lambda>b. if bed_id b = bed_id bd
                                          then b\<lparr>bed_occupiedBy := Some studentId\<rparr> else b) (beds s)\<rparr>;
                found = find (\<lambda>r. app_studentId r = studentId \<and> selected r) (applications s1);
                a = (case found of None \<Rightarrow> freshId | Some r \<Rightarrow> app_id r);
                s2 = (case found of
                        None \<Rightarrow> s1\<lparr>applications := applications s1 @
                                   [\<lparr>app_id = freshId, app_studentId = studentId,
                                     app_preferences = Some \<lparr>preferredHostels = None, roomType = None\<rparr>,
                                     app_status = ALLOCATED, app_appliedAt = now,
                                     app_priorityCategory = None\<rparr>]\<rparr>
                      | Some r \<Rightarrow> s1\<lparr>applications :=
                                   map (\<lambda>x. if app_id x = app_id r then x\<lparr>app_status := ALLOCATED\<rparr> else x)
                                     (applications s1)\<rparr>);
                al = \<lparr>alloc_id = newAllocationId e a, alloc_applicationId = a,
                      alloc_studentId = studentId, alloc_roomId = roomId, alloc_bedId = bed_id bd,
                      alloc_allocatedBy = actor\<rparr>;
                s3 = s2\<lparr>allocations := allocations s2 @ [al]\<rparr>
            in Inr (s3\<lparr>auditLogs := auditLogs s3 @
                      [\<lparr>audit_actorId = actor, audit_action = ALLOCATE,
                        audit_targetType = ''ALLOCATION'', audit_targetId = alloc_id al,
                        audit_details = ManualDetails roomId (bed_id bd)\<rparr>]\<rparr>))"

definition assignStudent ::
  "env \<Rightarrow> ident \<Rightarrow> int \<Rightarrow> ident \<Rightarrow> ident \<Rightarrow> int option \<Rightarrow> ident \<Rightarrow> store \<Rightarrow> response \<times> store" where
  "assignStudent e freshId now roomId studentId bedNumber actor s =
     (case findRoom s roomId of
        None \<Rightarrow> (NotFound404 ''Room not found'', s)
      | Some rm \<Rightarrow>
          (case findStudent s studentId of
             None \<Rightarrow> (NotFound404 ''Student not found'', s)
           | Some u \<Rightarrow>
               if user_role u \<noteq> STUDENT then (BadRequest400 ''User is not a student'', s)
               else if find (\<lambda>al. alloc_studentId al = studentId) (allocations s) \<noteq> None
               then (BadRequest400 ''Student already has an allocation'', s)
               else (case pickBed s roomId bedNumber of
                       Inl msg \<Rightarrow> (BadRequest400 msg, s)
                     | Inr bd \<Rightarrow>
                         (case assignTx e freshId now roomId studentId bd actor s of
                            Inl msg \<Rightarrow> (Failed500 msg, s)
                          | Inr s' \<Rightarrow> (Created201, s')))))"

section \<open>The store after a committed allocation\<close>

text \<open>
  The five writes of the allocation transaction, all applied: the occupant on the locked
  bed, the status ALLOCATED on the request, no waitlist entry left for the request, the
  allocation record, the audit record.
\<close>

definition allocationOf :: "env \<Rightarrow> application_obj \<Rightarrow> ident \<Rightarrow> bed \<Rightarrow> allocation" where
  "allocationOf e application allocatedBy bd =
     \<lparr>alloc_id = newAllocationId e (app_id (row application)),
      alloc_applicationId = app_id (row application),
      alloc_studentId = app_studentId (row application),
      alloc_roomId = bed_roomId bd, alloc_bedId = bed_id bd,
      alloc_allocatedBy = allocatedBy\<rparr>"

definition committed :: "env \<Rightarrow> application_obj \<Rightarrow> ident \<Rightarrow> bed \<Rightarrow> store \<Rightarrow> store" where
  "committed e application allocatedBy bd s =
     s\<lparr>beds := map (\<lambda>b. if bed_id b = bed_id bd
                         then b\<lparr>bed_occupiedBy := Some (app_studentId (row application))\<rparr>
                         else b) (beds s),
       applications := map (\<lambda>r. if app_id r = app_id (row application)
                                 then r\<lparr>app_status := ALLOCATED\<rparr> else r) (applications s),
       waitlistEntries := filter (\<lambda>w. wl_applicationId w \<noteq> app_id (row application))
                            (waitlistEntries s),
       allocations := allocations s @ [allocationOf e application allocatedBy bd],
       auditLogs := auditLogs s @
         [\<lparr>audit_actorId = allocatedBy, audit_action = ALLOCATE,
           audit_targetType = ''ALLOCATION'',
           audit_targetId = newAllocationId e (app_id (row application)),
           audit_details = AllocationDetails (app_id (row application))
                             (app_studentId (row application)) (bed_roomId bd) (bed_id bd) True\<rparr>]\<rparr>"

definition transactionSteps :: "store_op set" where
  "transactionSteps =
     {FindCandidates, UpdateBed, UpdateApplication, DeleteWaitlist, CreateAllocation,
      CreateAudit, Commit}"

text \<open>No request has both an allocation and a waitlist entry.\<close>

definition exclusive :: "store \<Rightarrow> bool" where
  "exclusive s =
     (\<forall>al \<in> set (allocations s). \<forall>w \<in> set (waitlistEntries s).
        alloc_applicationId al \<noteq> wl_applicationId w)"

section \<open>The status of a request in the store\<close>

definition statusOf :: "store \<Rightarrow> ident \<Rightarrow> application_status option" where
  "statusOf s i = map_option app_status (find (\<lambda>r. app_id r = i) (applications s))"

text \<open>
  \<open>frame a s s'\<close>: from \<open>s\<close> to \<open>s'\<close> the applications table has the same rows in
  the same places, and only the status of request \<open>a\<close> may differ.
\<close>

definition frame :: "ident \<Rightarrow> store \<Rightarrow> store \<Rightarrow> bool" where
  "frame a s s' =
     (map app_id (applications s') = map app_id (applications s)
      \<and> (\<forall>j. j \<noteq> a \<longrightarrow> statusOf s' j = statusOf s j))"

section \<open>Runs without failures\<close>

text \<open>
  \<open>quiet e\<close>: no call to the store raises and no row lock is held by anybody else.
  \<open>noCandidateFor s hs\<close>: no bed of the store passes the where-clause for the preferred
  hostels \<open>hs\<close>. \<open>onWaitlist s a\<close>: request \<open>a\<close> has a waitlist entry.
  \<open>keeps a s s'\<close>: from \<open>s\<close> to \<open>s'\<close> the users are the same, the application rows are
  the same up to their status, a request with no candidate bed still has none, and no
  request other than \<open>a\<close> has lost its waitlist entry.
\<close>

definition quiet :: "env \<Rightarrow> bool" where
  "quiet e = ((\<forall>a op. \<not> fails e a op) \<and> (\<forall>a b. lockOutcome e a b = Acquired)
              \<and> \<not> findApplicationsFails e)"

definition noCandidateFor :: "store \<Rightarrow> ident list \<Rightarrow> bool" where
  "noCandidateFor s hs = (\<forall>b \<in> set (beds s). \<not> bedWhere s hs b)"

definition onWaitlist :: "store \<Rightarrow> ident \<Rightarrow> bool" where
  "onWaitlist s a = (a \<in> set (map wl_applicationId (waitlistEntries s)))"

definition rowsKept :: "store \<Rightarrow> store \<Rightarrow> bool" where
  "rowsKept s s' =
     (map (\<lambda>r. r\<lparr>app_status := PENDING\<rparr>) (applications s')
        = map (\<lambda>r. r\<lparr>app_status := PENDING\<rparr>) (applications s))"

definition keeps :: "ident \<Rightarrow> store \<Rightarrow> store \<Rightarrow> bool" where
  "keeps a s s' =
     (users s' = users s \<and> rowsKept s s'
      \<and> (\<forall>hs. noCandidateFor s hs \<longrightarrow> noCandidateFor s' hs)
      \<and> (\<forall>i. i \<noteq> a \<and> onWaitlist s i \<longrightarrow> onWaitlist s' i))"

definition hostelsOfRow :: "application \<Rightarrow> ident list" where
  "hostelsOfRow r = preferredHostelsOf \<lparr>row = r, student = None\<rparr>"

section \<open>Example data\<close>

text \<open>
  A store that answers every call, gives every row lock, and sorts NULL last; and a
  small hostel: one block of hostel h1 with one AVAILABLE room of two beds, the second
  occupied, and two students with a PENDING application each.
\<close>

definition noFaults :: env where
  "noFaults = \<lparr>fails = (\<lambda>a op. False), lockOutcome = (\<lambda>a b. Acquired),
      newAllocationId = (\<lambda>a. ''al-'' @ a), nullsFirst = False,
      findApplicationsFails = False, batchAuditFails = False, smtpFails = (\<lambda>a. False)\<rparr>"

definition student1 :: user where
  "student1 = \<lparr>user_id = ''u1'', user_name = ''Asha'', user_email = ''asha@uni.edu'',
                user_role = STUDENT\<rparr>"

definition student2 :: user where
  "student2 = \<lparr>user_id = ''u2'', user_name = ''Bo'', user_email = ''bo@uni.edu'',
                user_role = STUDENT\<rparr>"

definition bed1 :: bed where
  "bed1 = \<lparr>bed_id = ''b1'', bed_roomId = ''r1'', bed_bedNumber = 1, bed_occupiedBy = None\<rparr>"

definition bed2 :: bed where
  "bed2 = \<lparr>bed_id = ''b2'', bed_roomId = ''r1'', bed_bedNumber = 2, bed_occupiedBy = Some ''u9''\<rparr>"

definition app1 :: application where
  "app1 = \<lparr>app_id = ''a1'', app_studentId = ''u1'',
             app_preferences = Some \<lparr>preferredHostels = Some [''h1''], roomType = None\<rparr>,
             app_status = PENDING, app_appliedAt = 1000, app_priorityCategory = None\<rparr>"

definition app2 :: application where
  "app2 = \<lparr>app_id = ''a2'', app_studentId = ''u2'', app_preferences = None,
             app_status = PENDING, app_appliedAt = 900, app_priorityCategory = Some ''MERIT''\<rparr>"

definition demoStore :: store where
  "demoStore =
     \<lparr>users = [student1, student2],
      blocks = [\<lparr>block_id = ''k1'', block_hostelId = ''h1''\<rparr>],
      rooms = [\<lparr>room_id = ''r1'', room_blockId = ''k1'', room_status = AVAILABLE\<rparr>],
      beds = [bed2, bed1],
      applications = [app1, app2],
      allocations = [], waitlistEntries = [], auditLogs = []\<rparr>"


text \<open>The first application as the runner loads it, and as a caller that did not load
  the student relation hands it over.\<close>

definition loaded1 :: application_obj where
  "loaded1 = \<lparr>row = app1, student = Some student1\<rparr>"

definition unloaded1 :: application_obj where
  "unloaded1 = \<lparr>row = app1, student = None\<rparr>"

definition loaded2 :: application_obj where
  "loaded2 = \<lparr>row = app2, student = Some student2\<rparr>"

text \<open>The store that raises at one call, while one application is processed.\<close>

definition faultAt :: "ident \<Rightarrow> store_op \<Rightarrow> env" where
  "faultAt a op = noFaults\<lparr>fails := (\<lambda>a' op'. a' = a \<and> op' = op)\<rparr>"

text \<open>
  The first student on the waitlist of hostel h1 with rank 1, the bed still free (the
  room was, say, under maintenance when the batch ran and is AVAILABLE again).
\<close>

definition waitlistedStore :: store where
  "waitlistedStore =
     demoStore\<lparr>applications := [app1\<lparr>app_status := WAITLISTED\<rparr>, app2],
       waitlistEntries := [\<lparr>wl_applicationId = ''a1'', wl_rank = 1, wl_hostelId = Some ''h1'',
                            wl_roomType = None\<rparr>]\<rparr>"




definition R1 :: application where
  "R1 = \<lparr>app_id = ''R1'', app_studentId = ''u1'', app_preferences = None,
           app_status = PENDING, app_appliedAt = 600, app_priorityCategory = None\<rparr>"

definition R2 :: application where
  "R2 = \<lparr>app_id = ''R2'', app_studentId = ''u2'', app_preferences = None,
           app_status = WAITLISTED, app_appliedAt = 605, app_priorityCategory = Some ''MERIT''\<rparr>"

definition R3 :: application where
  "R3 = \<lparr>app_id = ''R3'', app_studentId = ''u3'', app_preferences = None,
           app_status = PENDING, app_appliedAt = 540, app_priorityCategory = None\<rparr>"

definition orderingStore :: store where
  "orderingStore = demoStore\<lparr>applications := [R1, R2, R3]\<rparr>"

text \<open>
  A waitlist with one entry, of rank 5, in the bucket of hostel h1; and a request with
  no preferences at all.
\<close>

definition rankedStore :: store where
  "rankedStore =
     demoStore\<lparr>waitlistEntries := [\<lparr>wl_applicationId = ''a7'', wl_rank = 5,
                                     wl_hostelId = Some ''h1'', wl_roomType = None\<rparr>]\<rparr>"


section \<open>Properties of the candidate selection\<close>

lemma candidateBeds_subset:
  "set (candidateBeds s application)
     \<subseteq> {b \<in> set (beds s). bedWhere s (preferredHostelsOf application) b}"
proof -
  have "set (candidateBeds s application)
          \<subseteq> set (sort_key bed_id (filter (bedWhere s (preferredHostelsOf application)) (beds s)))"
    unfolding candidateBeds_def by (rule set_take_subset)
  then show ?thesis by auto
qed

lemma candidateBeds_empty_iff:
  "candidateBeds s application = []
     \<longleftrightarrow> (\<forall>b \<in> set (beds s). \<not> bedWhere s (preferredHostelsOf application) b)"
proof -
  have "candidateBeds s application = []
          \<longleftrightarrow> sort_key bed_id (filter (bedWhere s (preferredHostelsOf application)) (beds s)) = []"
    unfolding candidateBeds_def by simp
  also have "\<dots> \<longleftrightarrow> filter (bedWhere s (preferredHostelsOf application)) (beds s) = []"
    by (metis length_0_conv length_sort)
  also have "\<dots> \<longleftrightarrow> (\<forall>b \<in> set (beds s). \<not> bedWhere s (preferredHostelsOf application) b)"
    by (simp add: filter_empty_conv)
  finally show ?thesis .
qed

lemma allocateBed_no_candidate:
  assumes "candidateBeds s application = []"
  shows "allocateBed e s application allocatedBy = (False, s)"
  using assms
  by (simp add: allocateBed_def transaction_def allocateTx_def Let_def)

lemma candidateBeds_cong:
  assumes "beds s' = beds s" and "rooms s' = rooms s" and "blocks s' = blocks s"
    and "preferredHostelsOf application' = preferredHostelsOf application"
  shows "candidateBeds s' application' = candidateBeds s application"
proof -
  have brf: "baseRoomFilter s' hs r = baseRoomFilter s hs r" for hs r
    by (simp add: baseRoomFilter_def findBlock_def assms(3))
  have "bedWhere s' hs b = bedWhere s hs b" for hs b
    by (simp add: bedWhere_def findRoom_def assms(2) brf split: option.splits)
  then have "bedWhere s' hs = bedWhere s hs" for hs
    by (rule ext)
  then show ?thesis
    using assms(1,4) by (simp add: candidateBeds_def)
qed

lemma applicationUpdate_tables:
  assumes "applicationUpdate failing i st s = Inr s'"
  shows "beds s' = beds s \<and> rooms s' = rooms s \<and> blocks s' = blocks s \<and> users s' = users s
         \<and> allocations s' = allocations s \<and> waitlistEntries s' = waitlistEntries s
         \<and> auditLogs s' = auditLogs s"
  using assms by (auto simp: applicationUpdate_def split: if_splits)



section \<open>The allocation transaction is all or nothing\<close>

lemma allocateWrites_cases:
  "allocateWrites e application allocatedBy bd s = Inl StoreError
   \<or> (\<exists>r. allocateWrites e application allocatedBy bd s
            = Inr (Some r, committed e application allocatedBy bd s))"
  by (simp add: allocateWrites_def Let_def bindE_def bedUpdate_def applicationUpdate_def
      waitlistDeleteMany_def allocationCreate_def auditLogCreate_def committed_def
      allocationOf_def)

lemma allocateWrites_fault:
  assumes "fails e (app_id (row application)) op"
    and "op \<in> {UpdateBed, UpdateApplication, DeleteWaitlist, CreateAllocation, CreateAudit}"
  shows "allocateWrites e application allocatedBy bd s = Inl StoreError"
  using assms
  by (auto simp: allocateWrites_def Let_def bindE_def bedUpdate_def applicationUpdate_def
      waitlistDeleteMany_def allocationCreate_def auditLogCreate_def)

lemma lockLoop_member: "lockLoop e a s cs = Some bd \<Longrightarrow> bd \<in> set cs"
  by (induction cs) (auto split: sum.splits if_splits)

lemma allocateTx_cases:
  "allocateTx e application allocatedBy s = Inl StoreError
   \<or> allocateTx e application allocatedBy s = Inr (None, s)
   \<or> (\<exists>bd \<in> set (candidateBeds s application). \<exists>r.
         allocateTx e application allocatedBy s
           = Inr (Some r, committed e application allocatedBy bd s))"
proof (cases "lockLoop e (app_id (row application)) s (candidateBeds s application)")
  case None
  then show ?thesis by (simp add: allocateTx_def Let_def)
next
  case (Some bd)
  then have "bd \<in> set (candidateBeds s application)"
    by (rule lockLoop_member)
  then show ?thesis
    using Some allocateWrites_cases [of e application allocatedBy bd s]
    by (auto simp: allocateTx_def Let_def)
qed

lemma allocateTx_fault:
  assumes "fails e (app_id (row application)) op"
    and "op \<in> {FindCandidates, UpdateBed, UpdateApplication, DeleteWaitlist, CreateAllocation,
                CreateAudit}"
  shows "allocateTx e application allocatedBy s = Inl StoreError
         \<or> allocateTx e application allocatedBy s = Inr (None, s)"
proof (cases "op = FindCandidates")
  case True
  then show ?thesis using assms(1) by (simp add: allocateTx_def Let_def)
next
  case False
  then have "allocateWrites e application allocatedBy bd s = Inl StoreError" for bd
    using assms by (intro allocateWrites_fault [of e application op]) auto
  then show ?thesis
    by (simp add: allocateTx_def Let_def split: option.splits)
qed

lemma allocateBed_cases:
  "allocateBed e s application allocatedBy = (False, s)
   \<or> (\<exists>bd \<in> set (candidateBeds s application).
         allocateBed e s application allocatedBy
           = (student application \<noteq> None, committed e application allocatedBy bd s))"
proof -
  consider (raised) "allocateTx e application allocatedBy s = Inl StoreError"
    | (nothing) "allocateTx e application allocatedBy s = Inr (None, s)"
    | (written) bd r where "bd \<in> set (candidateBeds s application)"
        "allocateTx e application allocatedBy s
           = Inr (Some r, committed e application allocatedBy bd s)"
    using allocateTx_cases [of e application allocatedBy s] by blast
  then show ?thesis
  proof cases
    case raised
    then show ?thesis by (simp add: allocateBed_def transaction_def)
  next
    case nothing
    then show ?thesis by (simp add: allocateBed_def transaction_def)
  next
    case written
    show ?thesis
    proof (cases "fails e (app_id (row application)) Commit")
      case True
      then show ?thesis using written(2) by (simp add: allocateBed_def transaction_def)
    next
      case False
      then have "allocateBed e s application allocatedBy
           = (student application \<noteq> None, committed e application allocatedBy bd s)"
        using written(2)
        by (simp add: allocateBed_def transaction_def sendAllocationNotification_def
            split: option.splits)
      then show ?thesis using written(1) by blast
    qed
  qed
qed

text \<open>
  C6. The writes of an allocation (occupant on the bed, status ALLOCATED, waitlist entry
  deleted, allocation record, audit record) are one transaction: after allocateBed the
  store is either exactly the store before, or the store with all five writes applied
  for one of the candidate beds; allocateBed answers true only in the second case; and
  whenever one of the steps of the transaction (or its commit) fails, allocateBed
  answers false and the store is exactly the store before.
\<close>

theorem allocateBed_atomic:
  "(snd (allocateBed e s application allocatedBy) = s
      \<or> (\<exists>bd \<in> set (candidateBeds s application).
            snd (allocateBed e s application allocatedBy)
              = committed e application allocatedBy bd s))
   \<and> (fst (allocateBed e s application allocatedBy) \<longrightarrow>
         (\<exists>bd \<in> set (candidateBeds s application).
            snd (allocateBed e s application allocatedBy)
              = committed e application allocatedBy bd s))
   \<and> ((\<exists>op \<in> transactionSteps. fails e (app_id (row application)) op) \<longrightarrow>
         allocateBed e s application allocatedBy = (False, s))"
proof (intro conjI impI)
  show "snd (allocateBed e s application allocatedBy) = s
      \<or> (\<exists>bd \<in> set (candidateBeds s application).
            snd (allocateBed e s application allocatedBy)
              = committed e application allocatedBy bd s)"
    using allocateBed_cases [of e s application allocatedBy] by auto
next
  assume "fst (allocateBed e s application allocatedBy)"
  then show "\<exists>bd \<in> set (candidateBeds s application).
            snd (allocateBed e s application allocatedBy)
              = committed e application allocatedBy bd s"
    using allocateBed_cases [of e s application allocatedBy] by auto
next
  assume "\<exists>op \<in> transactionSteps. fails e (app_id (row application)) op"
  then obtain op where op: "op \<in> transactionSteps" "fails e (app_id (row application)) op"
    by blast
  show "allocateBed e s application allocatedBy = (False, s)"
  proof (cases "op = Commit")
    case True
    then show ?thesis
      using op(2)
      by (simp add: allocateBed_def transaction_def split: sum.splits prod.splits)
  next
    case False
    then have "allocateTx e application allocatedBy s = Inl StoreError
         \<or> allocateTx e application allocatedBy s = Inr (None, s)"
      using op by (intro allocateTx_fault [of e application op]) (auto simp: transactionSteps_def)
    then show ?thesis
      by (auto simp: allocateBed_def transaction_def)
  qed
qed

theorem allocateBed_atomic_witness:
  "fst (allocateBed noFaults demoStore loaded1 ''admin'')
   \<and> snd (allocateBed noFaults demoStore loaded1 ''admin'')
       = committed noFaults loaded1 ''admin'' bed1 demoStore
   \<and> CreateAllocation \<in> transactionSteps
   \<and> fails (faultAt ''a1'' CreateAllocation) (app_id (row loaded1)) CreateAllocation
   \<and> allocateBed (faultAt ''a1'' CreateAllocation) demoStore loaded1 ''admin'' = (False, demoStore)"
proof -
  have ok: "fst (allocateBed noFaults demoStore loaded1 ''admin'')"
    by code_simp
  have cands: "set (candidateBeds demoStore loaded1) = {bed1}"
    by code_simp
  have step: "CreateAllocation \<in> transactionSteps"
    by (simp add: transactionSteps_def)
  have fault: "fails (faultAt ''a1'' CreateAllocation) (app_id (row loaded1)) CreateAllocation"
    by (simp add: faultAt_def loaded1_def app1_def)
  show ?thesis
    using ok cands step fault
      allocateBed_atomic [of noFaults demoStore loaded1 "''admin''"]
      allocateBed_atomic [of "faultAt ''a1'' CreateAllocation" demoStore loaded1 "''admin''"]
    by auto
qed

section \<open>What allocateBed returns\<close>

text \<open>
  With the student relation loaded, allocateBed answers true exactly when the
  transaction committed its writes, whatever the mail transport does.
\<close>

lemma committed_differs: "committed e application allocatedBy bd s \<noteq> s"
proof
  assume "committed e application allocatedBy bd s = s"
  then have "allocations (committed e application allocatedBy bd s) = allocations s"
    by simp
  then show False by (simp add: committed_def)
qed

lemma allocateBed_loaded_student:
  assumes "student application \<noteq> None"
  shows "fst (allocateBed e s application allocatedBy)
         \<longleftrightarrow> snd (allocateBed e s application allocatedBy) \<noteq> s"
  using allocateBed_cases [of e s application allocatedBy] assms
  by (auto simp: committed_differs)

text \<open>
  C3, at the input of the repository's own test (an application created without
  \<open>include: { student }\<close>, one free bed in the preferred hostel). The transaction
  commits: the bed is occupied by the student, the request is ALLOCATED, the allocation
  and the audit record exist. Then reading \<open>application.student.email\<close> for the
  notification raises inside the same \<open>try\<close>, and allocateBed answers false.
\<close>

theorem allocateBed_unloaded_student:
  "allocateBed noFaults demoStore unloaded1 ''admin''
     = (False, committed noFaults unloaded1 ''admin'' bed1 demoStore)
   \<and> allocations (committed noFaults unloaded1 ''admin'' bed1 demoStore)
       = [\<lparr>alloc_id = ''al-a1'', alloc_applicationId = ''a1'', alloc_studentId = ''u1'',
           alloc_roomId = ''r1'', alloc_bedId = ''b1'', alloc_allocatedBy = ''admin''\<rparr>]
   \<and> beds (committed noFaults unloaded1 ''admin'' bed1 demoStore)
       = [bed2, bed1\<lparr>bed_occupiedBy := Some ''u1''\<rparr>]
   \<and> map app_status (applications (committed noFaults unloaded1 ''admin'' bed1 demoStore))
       = [ALLOCATED, PENDING]"
  by code_simp

section \<open>Allocation and waitlist entry of one request\<close>

text \<open>
  allocateBed keeps the two apart: the transaction deletes the waitlist entries of the
  request before it creates the allocation, so a store in which no request has both is
  left in such a state, and after a commit the request has an allocation and no entry.
\<close>

lemma committed_exclusive:
  assumes "exclusive s"
  shows "exclusive (committed e application allocatedBy bd s)"
  using assms by (auto simp: exclusive_def committed_def allocationOf_def)

lemma allocateBed_exclusive:
  assumes "exclusive s"
  shows "exclusive (snd (allocateBed e s application allocatedBy))"
  using allocateBed_cases [of e s application allocatedBy] assms
  by (auto simp: committed_exclusive)

lemma allocateBed_clears_waitlist:
  assumes "snd (allocateBed e s application allocatedBy) \<noteq> s"
  shows "(\<forall>w \<in> set (waitlistEntries (snd (allocateBed e s application allocatedBy))).
            wl_applicationId w \<noteq> app_id (row application))
         \<and> (\<exists>al \<in> set (allocations (snd (allocateBed e s application allocatedBy))).
              alloc_applicationId al = app_id (row application))"
  using allocateBed_cases [of e s application allocatedBy] assms
  by (auto simp: committed_def allocationOf_def)

text \<open>
  C7, on the manual assignment. The student's request is WAITLISTED with a waitlist
  entry and no allocation; the administrator assigns the student to room r1. The handler
  answers 201, the request is ALLOCATED and has an allocation, and its waitlist entry is
  still there: the handler has no counterpart of the \<open>waitlistEntry.deleteMany\<close> of
  allocateBed.
\<close>

theorem assignStudent_keeps_waitlist_entry:
  "fst (assignStudent noFaults ''a9'' 2000 ''r1'' ''u1'' None ''admin'' waitlistedStore) = Created201
   \<and> map alloc_applicationId
       (allocations (snd (assignStudent noFaults ''a9'' 2000 ''r1'' ''u1'' None ''admin'' waitlistedStore)))
       = [''a1'']
   \<and> map wl_applicationId
       (waitlistEntries (snd (assignStudent noFaults ''a9'' 2000 ''r1'' ''u1'' None ''admin'' waitlistedStore)))
       = [''a1'']
   \<and> map app_status
       (applications (snd (assignStudent noFaults ''a9'' 2000 ''r1'' ''u1'' None ''admin'' waitlistedStore)))
       = [ALLOCATED, PENDING]"
  by code_simp

section \<open>The order in which runAllocation takes the requests\<close>

lemma categoryBefore_irrefl: "\<not> categoryBefore nf c c"
  by (simp add: categoryBefore_def split: option.splits)






lemma mset_insertOrdered: "mset (insertOrdered nf x ys) = add_mset x (mset ys)"
  by (induction ys) auto


lemma mset_orderBy: "mset (orderBy nf xs) = mset xs"
  by (induction xs) (simp_all add: orderBy_def mset_insertOrdered)


lemma map_row_findApplications:
  "map row (findApplications e s) = orderBy (nullsFirst e) (filter selected (applications s))"
  by (simp add: findApplications_def comp_def)




text \<open>
  The ordering example of the specification, under both placements of NULL: R2, R3, R1
  when NULL sorts last under the descending key, R3, R1, R2 when it sorts first.
\<close>

lemma ordering_example_nulls_last:
  "map (app_id \<circ> row) (findApplications noFaults orderingStore) = [''R2'', ''R3'', ''R1'']"
  by code_simp

lemma ordering_example_nulls_first:
  "map (app_id \<circ> row) (findApplications (noFaults\<lparr>nullsFirst := True\<rparr>) orderingStore)
     = [''R3'', ''R1'', ''R2'']"
  by code_simp

section \<open>Ranks on the waitlist\<close>

lemma maxRankEntry_None: "maxRankEntry ws = None \<longleftrightarrow> ws = []"
  by (induction ws) (auto split: option.splits)

lemma maxRankEntry_Some:
  "maxRankEntry ws = Some m \<Longrightarrow> m \<in> set ws \<and> (\<forall>w \<in> set ws. wl_rank w \<le> wl_rank m)"
proof (induction ws arbitrary: m)
  case Nil
  then show ?case by simp
next
  case (Cons w ws)
  show ?case
  proof (cases "maxRankEntry ws")
    case None
    then have "ws = []" by (simp add: maxRankEntry_None)
    then show ?thesis using Cons.prems by simp
  next
    case (Some m')
    then have m': "m' \<in> set ws" "\<forall>x \<in> set ws. wl_rank x \<le> wl_rank m'"
      using Cons.IH by auto
    show ?thesis
    proof (cases "wl_rank m' \<le> wl_rank w")
      case True
      then have "m = w" using Cons.prems Some by simp
      then show ?thesis using m' True by auto
    next
      case False
      then have "m = m'" using Cons.prems Some by simp
      then show ?thesis using m' False by auto
    qed
  qed
qed

lemma maxRankEntry_Max:
  assumes "ws \<noteq> []"
  shows "\<exists>m. maxRankEntry ws = Some m \<and> wl_rank m = Max (wl_rank ` set ws)"
proof -
  obtain m where m: "maxRankEntry ws = Some m"
    using assms maxRankEntry_None [of ws] by (cases "maxRankEntry ws") auto
  then have "m \<in> set ws" "\<forall>w \<in> set ws. wl_rank w \<le> wl_rank m"
    using maxRankEntry_Some by auto
  then have "Max (wl_rank ` set ws) = wl_rank m"
    by (intro Max_eqI) auto
  then show ?thesis using m by simp
qed

lemma newRank_eq:
  "newRank s application =
     (if filter (rankScope (waitlistHostel application)) (waitlistEntries s) = [] then 1
      else Max (wl_rank ` set (filter (rankScope (waitlistHostel application)) (waitlistEntries s))) + 1)"
proof (cases "filter (rankScope (waitlistHostel application)) (waitlistEntries s) = []")
  case True
  then show ?thesis by (simp add: newRank_def)
next
  case False
  then show ?thesis
    using maxRankEntry_Max [OF False] by (auto simp: newRank_def)
qed

lemma newRank_greater:
  assumes "w \<in> set (waitlistEntries s)" and "rankScope (waitlistHostel application) w"
  shows "wl_rank w < newRank s application"
proof -
  let ?scope = "filter (rankScope (waitlistHostel application)) (waitlistEntries s)"
  have mem: "w \<in> set ?scope" using assms by simp
  then have "?scope \<noteq> []" by (metis empty_iff list.set(1))
  moreover have "wl_rank w \<le> Max (wl_rank ` set ?scope)"
    using mem by (intro Max_ge) auto
  ultimately show ?thesis by (simp add: newRank_eq)
qed

lemma rankScope_rank_update [simp]: "rankScope h (w\<lparr>wl_rank := r\<rparr>) = rankScope h w"
  by (simp add: rankScope_def split: option.splits)

lemma rankScope_cases:
  "filter (rankScope (waitlistHostel application)) ws =
     (case preferredHostelsOf application of
        [] \<Rightarrow> ws
      | h # hs \<Rightarrow> if h = [] then ws else filter (\<lambda>w. wl_hostelId w = Some h) ws)"
proof -
  have "rankScope None = (\<lambda>w. True)" "rankScope (Some []) = (\<lambda>w. True)"
    by (simp_all add: rankScope_def fun_eq_iff)
  moreover have "rankScope (Some h) = (\<lambda>w. wl_hostelId w = Some h)" if "h \<noteq> []" for h
    using that by (simp add: rankScope_def fun_eq_iff)
  ultimately show ?thesis
    by (simp add: waitlistHostel_def split: list.splits)
qed

lemma addToWaitlist_entries:
  assumes "fst (addToWaitlist e s application) = Inr u"
  shows "waitlistEntries (snd (addToWaitlist e s application))
         = waitlistEntries (waitlistUpsert (app_id (row application)) (newRank s application)
             (waitlistHostel application) (waitlistRoomType application) s)"
  using assms
  by (auto simp: addToWaitlist_def Let_def applicationUpdate_def sendWaitlistNotification_def
      split: if_splits option.splits)

lemma upsert_scope_ranks:
  assumes "\<forall>w \<in> set (waitlistEntries s). wl_applicationId w = a \<longrightarrow> rankScope h w"
    and "rankScope h \<lparr>wl_applicationId = a, wl_rank = r, wl_hostelId = h', wl_roomType = rt\<rparr>"
  shows "wl_rank ` set (filter (rankScope h) (waitlistEntries (waitlistUpsert a r h' rt s)))
         = insert r (wl_rank ` set (filter (\<lambda>w. rankScope h w \<and> wl_applicationId w \<noteq> a)
                                      (waitlistEntries s)))"
proof (cases "find (\<lambda>w. wl_applicationId w = a) (waitlistEntries s)")
  case None
  then have "\<forall>w \<in> set (waitlistEntries s). wl_applicationId w \<noteq> a"
    by (simp add: find_None_iff)
  then have "filter (\<lambda>w. rankScope h w \<and> wl_applicationId w \<noteq> a) (waitlistEntries s)
             = filter (rankScope h) (waitlistEntries s)"
    by (intro filter_cong) auto
  then show ?thesis
    using None assms(2) by (simp add: waitlistUpsert_def)
next
  case (Some w0)
  then have w0: "w0 \<in> set (waitlistEntries s)" "wl_applicationId w0 = a"
    by (auto simp: find_Some_iff)
  let ?own = "{w \<in> set (waitlistEntries s). wl_applicationId w = a}"
  let ?others = "{w \<in> set (waitlistEntries s). rankScope h w \<and> wl_applicationId w \<noteq> a}"
  have "set (filter (rankScope h)
          (map (\<lambda>w. if wl_applicationId w = a then w\<lparr>wl_rank := r\<rparr> else w) (waitlistEntries s)))
        = (\<lambda>w. w\<lparr>wl_rank := r\<rparr>) ` ?own \<union> ?others"
    using assms(1) by auto
  moreover have "wl_rank ` ((\<lambda>w. w\<lparr>wl_rank := r\<rparr>) ` ?own) = {r}"
    using w0 by (auto simp: image_image)
  ultimately have "wl_rank ` set (filter (rankScope h)
          (map (\<lambda>w. if wl_applicationId w = a then w\<lparr>wl_rank := r\<rparr> else w) (waitlistEntries s)))
        = insert r (wl_rank ` ?others)"
    by (simp add: image_Un)
  then show ?thesis
    using Some by (simp add: waitlistUpsert_def)
qed

lemma Max_insert_upper:
  fixes r :: int
  assumes "\<forall>x \<in> X. x \<le> r" and "finite X"
  shows "Max (insert r X) = r"
  using assms by (intro Max_eqI) auto

lemma rankScope_own:
  "rankScope h \<lparr>wl_applicationId = a, wl_rank = r, wl_hostelId = h, wl_roomType = rt\<rparr>"
  by (simp add: rankScope_def split: option.splits)

lemma newRank_after_upsert:
  assumes own: "\<forall>w \<in> set (waitlistEntries s). wl_applicationId w = app_id (row application)
                  \<longrightarrow> rankScope (waitlistHostel application) w"
    and same: "waitlistHostel application' = waitlistHostel application"
    and entries: "waitlistEntries s'
         = waitlistEntries (waitlistUpsert (app_id (row application)) (newRank s application)
             (waitlistHostel application) (waitlistRoomType application) s)"
  shows "newRank s' application' = newRank s application + 1"
proof -
  let ?h = "waitlistHostel application"
  let ?r = "newRank s application"
  let ?others = "filter (\<lambda>w. rankScope ?h w \<and> wl_applicationId w \<noteq> app_id (row application))
                   (waitlistEntries s)"
  let ?scope' = "filter (rankScope ?h) (waitlistEntries s')"
  have ranks: "wl_rank ` set ?scope' = insert ?r (wl_rank ` set ?others)"
    unfolding entries using own by (intro upsert_scope_ranks rankScope_own)
  have below: "\<forall>x \<in> wl_rank ` set ?others. x \<le> ?r"
  proof
    fix x assume "x \<in> wl_rank ` set ?others"
    then obtain w where "w \<in> set (waitlistEntries s)" "rankScope ?h w" "x = wl_rank w"
      by auto
    then show "x \<le> ?r"
      using newRank_greater [of w s application] by simp
  qed
  have "Max (insert ?r (wl_rank ` set ?others)) = ?r"
    using below by (intro Max_insert_upper) simp_all
  then have greatest: "Max (wl_rank ` set ?scope') = ?r"
    by (simp only: ranks)
  have nonempty: "?scope' \<noteq> []"
  proof
    assume none: "?scope' = []"
    have "insert ?r (wl_rank ` set ?others) = wl_rank ` set ?scope'"
      by (rule ranks [symmetric])
    also have "\<dots> = {}"
      by (simp only: none list.set image_empty)
    finally show False
      by (simp only: insert_not_empty)
  qed
  have "newRank s' application'
          = (if ?scope' = [] then 1 else Max (wl_rank ` set ?scope') + 1)"
    using newRank_eq [of s' application'] by (simp only: same)
  then have "newRank s' application' = Max (wl_rank ` set ?scope') + 1"
    using nonempty by (simp only: if_False)
  then show ?thesis
    by (simp only: greatest)
qed

text \<open>
  C4, as the code has it. addToWaitlist takes the first preferred hostel of the request.
  With a hostel (a non-empty identity) the rank is computed over the entries of that
  hostel; with none it is computed over every entry of the waitlist, whatever its
  hostel. The rank is 1 when there is no such entry and the greatest of their ranks plus
  one otherwise, so it is greater than every rank it was computed over; when the call
  succeeds the entry of the request carries that rank; and the next call for a request
  with the same first hostel gets the next rank (provided an entry the request already
  had was one of those the rank was computed over).
\<close>

theorem addToWaitlist_rank:
  assumes "fst (addToWaitlist e s application) = Inr ()"
  shows "filter (rankScope (waitlistHostel application)) (waitlistEntries s)
           = (case preferredHostelsOf application of
                [] \<Rightarrow> waitlistEntries s
              | h # hs \<Rightarrow> if h = [] then waitlistEntries s
                          else filter (\<lambda>w. wl_hostelId w = Some h) (waitlistEntries s))
     \<and> newRank s application
           = (if filter (rankScope (waitlistHostel application)) (waitlistEntries s) = [] then 1
              else Max (wl_rank ` set (filter (rankScope (waitlistHostel application))
                                         (waitlistEntries s))) + 1)
     \<and> (\<forall>w \<in> set (filter (rankScope (waitlistHostel application)) (waitlistEntries s)).
           wl_rank w < newRank s application)
     \<and> (\<exists>w \<in> set (waitlistEntries (snd (addToWaitlist e s application))).
           wl_applicationId w = app_id (row application))
     \<and> (\<forall>w \<in> set (waitlistEntries (snd (addToWaitlist e s application))).
           wl_applicationId w = app_id (row application) \<longrightarrow> wl_rank w = newRank s application)
     \<and> (\<forall>next.
           waitlistHostel next = waitlistHostel application
           \<and> (\<forall>w \<in> set (waitlistEntries s). wl_applicationId w = app_id (row application)
                  \<longrightarrow> rankScope (waitlistHostel application) w)
           \<longrightarrow> newRank (snd (addToWaitlist e s application)) next = newRank s application + 1)"
proof -
  let ?s' = "snd (addToWaitlist e s application)"
  let ?a = "app_id (row application)"
  have entries: "waitlistEntries ?s'
         = waitlistEntries (waitlistUpsert ?a (newRank s application)
             (waitlistHostel application) (waitlistRoomType application) s)"
    using assms by (rule addToWaitlist_entries)
  have present: "\<exists>w \<in> set (waitlistEntries ?s'). wl_applicationId w = ?a"
  proof (cases "find (\<lambda>w. wl_applicationId w = ?a) (waitlistEntries s)")
    case None
    then show ?thesis by (simp add: entries waitlistUpsert_def)
  next
    case (Some w0)
    then have w0: "w0 \<in> set (waitlistEntries s)" "wl_applicationId w0 = ?a"
      by (auto simp: find_Some_iff)
    let ?f = "\<lambda>w. if wl_applicationId w = ?a then w\<lparr>wl_rank := newRank s application\<rparr> else w"
    have "waitlistEntries ?s' = map ?f (waitlistEntries s)"
      using Some by (simp add: entries waitlistUpsert_def)
    moreover have "?f w0 \<in> set (map ?f (waitlistEntries s))"
      using w0(1) by (simp only: set_map) (rule imageI)
    ultimately have mem: "?f w0 \<in> set (waitlistEntries ?s')"
      by (simp only:)
    have own_id: "wl_applicationId (?f w0) = ?a"
      using w0(2) by simp
    show ?thesis
      using own_id mem
      by (rule bexI [where P = "\<lambda>w. wl_applicationId w = ?a" and x = "?f w0"])
  qed
  have carried: "\<forall>w \<in> set (waitlistEntries ?s').
           wl_applicationId w = ?a \<longrightarrow> wl_rank w = newRank s application"
  proof (cases "find (\<lambda>w. wl_applicationId w = ?a) (waitlistEntries s)")
    case None
    then have "\<forall>w \<in> set (waitlistEntries s). wl_applicationId w \<noteq> ?a"
      by (simp add: find_None_iff)
    then show ?thesis using None by (auto simp: entries waitlistUpsert_def)
  next
    case (Some w0)
    then show ?thesis by (auto simp: entries waitlistUpsert_def)
  qed
  have following: "newRank ?s' next = newRank s application + 1"
    if "waitlistHostel next = waitlistHostel application"
      and "\<forall>w \<in> set (waitlistEntries s). wl_applicationId w = ?a
                  \<longrightarrow> rankScope (waitlistHostel application) w" for "next"
    by (rule newRank_after_upsert [OF that(2) that(1) entries])
  have greater: "\<forall>w \<in> set (filter (rankScope (waitlistHostel application)) (waitlistEntries s)).
           wl_rank w < newRank s application"
  proof
    fix w assume "w \<in> set (filter (rankScope (waitlistHostel application)) (waitlistEntries s))"
    then have "w \<in> set (waitlistEntries s)" "rankScope (waitlistHostel application) w"
      by simp_all
    then show "wl_rank w < newRank s application"
      by (rule newRank_greater)
  qed
  have after: "\<forall>next.
           waitlistHostel next = waitlistHostel application
           \<and> (\<forall>w \<in> set (waitlistEntries s). wl_applicationId w = ?a
                  \<longrightarrow> rankScope (waitlistHostel application) w)
           \<longrightarrow> newRank ?s' next = newRank s application + 1"
    by (intro allI impI, elim conjE, rule following)
  show ?thesis
    by (intro conjI rankScope_cases newRank_eq greater present carried after)
qed

theorem addToWaitlist_rank_witness:
  "fst (addToWaitlist noFaults rankedStore loaded1) = Inr ()
   \<and> newRank rankedStore loaded1 = 6
   \<and> waitlistEntries (snd (addToWaitlist noFaults rankedStore loaded1))
       = [\<lparr>wl_applicationId = ''a7'', wl_rank = 5, wl_hostelId = Some ''h1'', wl_roomType = None\<rparr>,
          \<lparr>wl_applicationId = ''a1'', wl_rank = 6, wl_hostelId = Some ''h1'', wl_roomType = None\<rparr>]
   \<and> newRank (snd (addToWaitlist noFaults rankedStore loaded1)) loaded1 = 7"
proof -
  have ok: "fst (addToWaitlist noFaults rankedStore loaded1) = Inr ()"
    by code_simp
  have scope: "filter (rankScope (waitlistHostel loaded1)) (waitlistEntries rankedStore)
      = [\<lparr>wl_applicationId = ''a7'', wl_rank = 5, wl_hostelId = Some ''h1'', wl_roomType = None\<rparr>]"
    by code_simp
  have own: "\<forall>w \<in> set (waitlistEntries rankedStore).
      wl_applicationId w = app_id (row loaded1) \<longrightarrow> rankScope (waitlistHostel loaded1) w"
    by code_simp
  have entries: "waitlistEntries (snd (addToWaitlist noFaults rankedStore loaded1))
       = [\<lparr>wl_applicationId = ''a7'', wl_rank = 5, wl_hostelId = Some ''h1'', wl_roomType = None\<rparr>,
          \<lparr>wl_applicationId = ''a1'', wl_rank = 6, wl_hostelId = Some ''h1'', wl_roomType = None\<rparr>]"
    by code_simp
  note rank = addToWaitlist_rank [OF ok]
  have "newRank rankedStore loaded1
           = (if filter (rankScope (waitlistHostel loaded1)) (waitlistEntries rankedStore) = [] then 1
              else Max (wl_rank ` set (filter (rankScope (waitlistHostel loaded1))
                                         (waitlistEntries rankedStore))) + 1)"
    by (rule rank [THEN conjunct2, THEN conjunct1])
  then have six: "newRank rankedStore loaded1 = 6"
    by (simp only: scope) simp
  have "waitlistHostel loaded1 = waitlistHostel loaded1
           \<and> (\<forall>w \<in> set (waitlistEntries rankedStore). wl_applicationId w = app_id (row loaded1)
                  \<longrightarrow> rankScope (waitlistHostel loaded1) w)
           \<longrightarrow> newRank (snd (addToWaitlist noFaults rankedStore loaded1)) loaded1
                 = newRank rankedStore loaded1 + 1"
    by (rule rank [THEN conjunct2, THEN conjunct2, THEN conjunct2, THEN conjunct2,
          THEN conjunct2, THEN spec])
  then have seven: "newRank (snd (addToWaitlist noFaults rankedStore loaded1)) loaded1 = 7"
    using own by (simp only: six)
  show ?thesis
    using ok six entries seven by (intro conjI)
qed

text \<open>
  C4 as written fails for a request without preferred hostel: no entry of the
  waitlist is in the unscoped bucket (the only entry belongs to hostel h1), and the
  request gets rank 6, one more than that entry's rank, not rank 1.
\<close>

theorem unscoped_rank_counterexample:
  "preferredHostelsOf loaded2 = []
   \<and> waitlistEntries rankedStore
       = [\<lparr>wl_applicationId = ''a7'', wl_rank = 5, wl_hostelId = Some ''h1'', wl_roomType = None\<rparr>]
   \<and> addToWaitlist noFaults rankedStore loaded2
       = (Inr (), rankedStore
            \<lparr>applications := [app1, app2\<lparr>app_status := WAITLISTED\<rparr>],
             waitlistEntries :=
               [\<lparr>wl_applicationId = ''a7'', wl_rank = 5, wl_hostelId = Some ''h1'', wl_roomType = None\<rparr>,
                \<lparr>wl_applicationId = ''a2'', wl_rank = 6, wl_hostelId = None, wl_roomType = None\<rparr>]\<rparr>)"
  by code_simp

section \<open>What processing one request changes in the applications table\<close>

lemma find_status_update:
  "find (\<lambda>r. app_id r = j) (map (\<lambda>r. if app_id r = i then r\<lparr>app_status := st\<rparr> else r) rows)
     = map_option (\<lambda>r. if app_id r = i then r\<lparr>app_status := st\<rparr> else r)
         (find (\<lambda>r. app_id r = j) rows)"
  by (induction rows) auto

lemma statusOf_status_update:
  "statusOf (s\<lparr>applications := map (\<lambda>r. if app_id r = i then r\<lparr>app_status := st\<rparr> else r)
                                    (applications s)\<rparr>) j
     = (if j = i then map_option (\<lambda>x. st) (statusOf s i) else statusOf s j)"
proof (cases "find (\<lambda>r. app_id r = j) (applications s)")
  case None
  then show ?thesis by (auto simp: statusOf_def find_status_update)
next
  case (Some r)
  then have "app_id r = j" by (auto simp: find_Some_iff)
  then show ?thesis using Some by (auto simp: statusOf_def find_status_update)
qed

lemma ids_status_update:
  "map app_id (map (\<lambda>r. if app_id r = i then r\<lparr>app_status := st\<rparr> else r) rows) = map app_id rows"
  by (induction rows) auto

lemma statusOf_known: "statusOf s i \<noteq> None \<longleftrightarrow> i \<in> set (map app_id (applications s))"
  by (auto simp: statusOf_def find_None_iff)

lemma frame_refl: "frame a s s"
  by (simp add: frame_def)

lemma frame_trans: "frame a s s1 \<Longrightarrow> frame a s1 s2 \<Longrightarrow> frame a s s2"
  by (simp add: frame_def)

lemma frame_same_applications: "applications s' = applications s \<Longrightarrow> frame a s s'"
  by (simp add: frame_def statusOf_def)

lemma frame_known:
  assumes "frame a s s'"
  shows "statusOf s' i \<noteq> None \<longleftrightarrow> statusOf s i \<noteq> None"
  using assms unfolding statusOf_known by (simp add: frame_def)

lemma applicationUpdate_frame:
  assumes "applicationUpdate failing a st s = Inr s'"
  shows "frame a s s' \<and> statusOf s' a = Some st"
proof -
  have found: "find (\<lambda>r. app_id r = a) (applications s) \<noteq> None"
    and s': "s' = s\<lparr>applications := map (\<lambda>r. if app_id r = a then r\<lparr>app_status := st\<rparr> else r)
                                      (applications s)\<rparr>"
    using assms by (auto simp: applicationUpdate_def split: if_splits)
  have "statusOf s a \<noteq> None"
    using found by (simp add: statusOf_def)
  then have "statusOf s' a = Some st"
    unfolding s' statusOf_status_update by auto
  moreover have "frame a s s'"
    unfolding s' frame_def statusOf_status_update by (simp add: ids_status_update)
  ultimately show ?thesis by simp
qed

lemma applicationUpdate_succeeds:
  assumes "\<not> failing" and "statusOf s a \<noteq> None"
  shows "\<exists>s'. applicationUpdate failing a st s = Inr s'"
  using assms by (simp add: applicationUpdate_def statusOf_def)

lemma applicationUpdate_raises:
  assumes "applicationUpdate failing a st s = Inl err"
  shows "failing \<or> statusOf s a = None"
  using assms by (auto simp: applicationUpdate_def statusOf_def split: if_splits)

lemma committed_frame:
  "frame (app_id (row application)) s (committed e application allocatedBy bd s)
   \<and> statusOf (committed e application allocatedBy bd s) (app_id (row application))
       = map_option (\<lambda>x. ALLOCATED) (statusOf s (app_id (row application)))"
proof -
  have "applications (committed e application allocatedBy bd s)
          = applications (s\<lparr>applications :=
               map (\<lambda>r. if app_id r = app_id (row application) then r\<lparr>app_status := ALLOCATED\<rparr> else r)
                 (applications s)\<rparr>)"
    by (simp add: committed_def)
  then have eq: "statusOf (committed e application allocatedBy bd s) j
          = statusOf (s\<lparr>applications :=
               map (\<lambda>r. if app_id r = app_id (row application) then r\<lparr>app_status := ALLOCATED\<rparr> else r)
                 (applications s)\<rparr>) j" for j
    by (simp add: statusOf_def)
  show ?thesis
    unfolding frame_def eq statusOf_status_update
    by (simp add: committed_def ids_status_update)
qed

lemma allocateBed_frame:
  assumes "statusOf s (app_id (row application)) \<noteq> None"
  shows "frame (app_id (row application)) s (snd (allocateBed e s application allocatedBy))
     \<and> (fst (allocateBed e s application allocatedBy) \<longrightarrow>
          statusOf (snd (allocateBed e s application allocatedBy)) (app_id (row application))
            = Some ALLOCATED)"
proof -
  consider (unchanged) "allocateBed e s application allocatedBy = (False, s)"
    | (written) bd where "allocateBed e s application allocatedBy
           = (student application \<noteq> None, committed e application allocatedBy bd s)"
    using allocateBed_cases [of e s application allocatedBy] by blast
  then show ?thesis
  proof cases
    case unchanged
    then show ?thesis by (simp add: frame_refl)
  next
    case written
    have "statusOf (committed e application allocatedBy bd s) (app_id (row application))
            = Some ALLOCATED"
      using assms committed_frame [of application s e allocatedBy bd] by auto
    then show ?thesis
      using written committed_frame [of application s e allocatedBy bd] by simp
  qed
qed

lemma waitlistUpsert_tables:
  "applications (waitlistUpsert a r h rt s) = applications s
   \<and> beds (waitlistUpsert a r h rt s) = beds s
   \<and> rooms (waitlistUpsert a r h rt s) = rooms s
   \<and> blocks (waitlistUpsert a r h rt s) = blocks s
   \<and> users (waitlistUpsert a r h rt s) = users s
   \<and> allocations (waitlistUpsert a r h rt s) = allocations s
   \<and> auditLogs (waitlistUpsert a r h rt s) = auditLogs s"
  by (simp add: waitlistUpsert_def)

lemma addToWaitlist_cases:
  assumes "s1 = waitlistUpsert (app_id (row application)) (newRank s application)
                  (waitlistHostel application) (waitlistRoomType application) s"
  shows "addToWaitlist e s application = (Inl StoreError, s)
     \<or> (\<exists>err. addToWaitlist e s application = (Inl err, s1))
     \<or> (\<exists>s2. applicationUpdate (fails e (app_id (row application)) MarkWaitlisted)
                 (app_id (row application)) WAITLISTED s1 = Inr s2
           \<and> addToWaitlist e s application
               = (if student application = None then Inl TypeError else Inr (), s2))"
  unfolding assms
  by (auto simp: addToWaitlist_def Let_def sendWaitlistNotification_def
      split: sum.splits option.splits)

lemma addToWaitlist_frame:
  "frame (app_id (row application)) s (snd (addToWaitlist e s application))
   \<and> (fst (addToWaitlist e s application) = Inr () \<longrightarrow>
        statusOf (snd (addToWaitlist e s application)) (app_id (row application)) = Some WAITLISTED)"
proof -
  let ?a = "app_id (row application)"
  define s1 where "s1 = waitlistUpsert ?a (newRank s application)
                  (waitlistHostel application) (waitlistRoomType application) s"
  have f1: "frame ?a s s1"
    unfolding s1_def by (intro frame_same_applications) (simp add: waitlistUpsert_tables)
  consider (early) "addToWaitlist e s application = (Inl StoreError, s)"
    | (upserted) err where "addToWaitlist e s application = (Inl err, s1)"
    | (marked) s2 where "applicationUpdate (fails e ?a MarkWaitlisted) ?a WAITLISTED s1 = Inr s2"
        "addToWaitlist e s application
               = (if student application = None then Inl TypeError else Inr (), s2)"
    using addToWaitlist_cases [OF s1_def, of e] by blast
  then show ?thesis
  proof cases
    case early
    then show ?thesis by (simp add: frame_refl)
  next
    case upserted
    then show ?thesis using f1 by simp
  next
    case marked
    have "frame ?a s1 s2" "statusOf s2 ?a = Some WAITLISTED"
      using applicationUpdate_frame [OF marked(1)] by simp_all
    then have "frame ?a s s2"
      using f1 frame_trans by blast
    then show ?thesis
      using marked(2) \<open>statusOf s2 ?a = Some WAITLISTED\<close> by simp
  qed
qed

lemma tryProcess_frame:
  "frame (app_id (row application)) s (snd (tryProcess e allocatedBy application st s))
   \<and> (\<forall>st'. fst (tryProcess e allocatedBy application st s) = Inr st' \<longrightarrow>
         (st' = st\<lparr>allocated := allocated st + 1\<rparr>
            \<and> statusOf (snd (tryProcess e allocatedBy application st s)) (app_id (row application))
                = Some ALLOCATED)
         \<or> (st' = st\<lparr>waitlisted := waitlisted st + 1\<rparr>
            \<and> statusOf (snd (tryProcess e allocatedBy application st s)) (app_id (row application))
                = Some WAITLISTED))"
proof (cases "applicationUpdate (fails e (app_id (row application)) MarkInProgress)
                (app_id (row application)) IN_PROGRESS s")
  case (Inl err)
  then show ?thesis by (simp add: tryProcess_def frame_refl)
next
  case (Inr s1)
  let ?a = "app_id (row application)"
  have f1: "frame ?a s s1" and known: "statusOf s1 ?a \<noteq> None"
    using applicationUpdate_frame [OF Inr] by simp_all
  obtain ok s2 where alloc: "allocateBed e s1 application allocatedBy = (ok, s2)"
    by (cases "allocateBed e s1 application allocatedBy")
  have f2: "frame ?a s1 s2" and st2: "ok \<longrightarrow> statusOf s2 ?a = Some ALLOCATED"
    using allocateBed_frame [OF known, of e allocatedBy] alloc by simp_all
  show ?thesis
  proof (cases ok)
    case True
    then have "tryProcess e allocatedBy application st s
                 = (Inr (st\<lparr>allocated := allocated st + 1\<rparr>), s2)"
      using Inr alloc by (simp add: tryProcess_def)
    then show ?thesis
      using f1 f2 st2 True frame_trans by auto
  next
    case False
    obtain r s3 where wl: "addToWaitlist e s2 application = (r, s3)"
      by (cases "addToWaitlist e s2 application")
    have f3: "frame ?a s2 s3" and st3: "r = Inr () \<longrightarrow> statusOf s3 ?a = Some WAITLISTED"
      using addToWaitlist_frame [of application s2 e] wl by simp_all
    have f: "frame ?a s s3"
      using f1 f2 f3 frame_trans by blast
    have "tryProcess e allocatedBy application st s
            = (case r of Inl err \<Rightarrow> (Inl err, s3)
               | Inr u \<Rightarrow> (Inr (st\<lparr>waitlisted := waitlisted st + 1\<rparr>), s3))"
      using Inr alloc False wl by (simp add: tryProcess_def)
    then show ?thesis
      using f st3 by (cases r) auto
  qed
qed

lemma processApplication_frame:
  assumes known: "statusOf s (app_id (row application)) \<noteq> None"
    and reset: "\<not> fails e (app_id (row application)) ResetStatus"
  shows "\<exists>st' s'. processApplication e allocatedBy application st s = (Inr st', s')
     \<and> frame (app_id (row application)) s s'
     \<and> ((st' = st\<lparr>allocated := allocated st + 1\<rparr>
           \<and> statusOf s' (app_id (row application)) = Some ALLOCATED)
        \<or> (st' = st\<lparr>waitlisted := waitlisted st + 1\<rparr>
           \<and> statusOf s' (app_id (row application)) = Some WAITLISTED)
        \<or> (st' = st\<lparr>errors := errors st + 1\<rparr>
           \<and> (\<exists>err. fst (tryProcess e allocatedBy application st s) = Inl err)
           \<and> statusOf s' (app_id (row application))
               = Some (if app_status (row application) = WAITLISTED then WAITLISTED else PENDING)))"
proof -
  let ?a = "app_id (row application)"
  obtain r s1 where tp: "tryProcess e allocatedBy application st s = (r, s1)"
    by (cases "tryProcess e allocatedBy application st s")
  have f1: "frame ?a s s1"
    and good: "\<forall>st'. r = Inr st' \<longrightarrow>
         (st' = st\<lparr>allocated := allocated st + 1\<rparr> \<and> statusOf s1 ?a = Some ALLOCATED)
         \<or> (st' = st\<lparr>waitlisted := waitlisted st + 1\<rparr> \<and> statusOf s1 ?a = Some WAITLISTED)"
    using tryProcess_frame [of application s e allocatedBy st] tp by simp_all
  show ?thesis
  proof (cases r)
    case (Inr st')
    then have "processApplication e allocatedBy application st s = (Inr st', s1)"
      using tp by (simp add: processApplication_def)
    then show ?thesis using f1 good Inr by auto
  next
    case (Inl err)
    have "statusOf s1 ?a \<noteq> None"
      using known frame_known [OF f1] by simp
    then obtain s2 where upd: "applicationUpdate (fails e ?a ResetStatus) ?a
            (if app_status (row application) = WAITLISTED then WAITLISTED else PENDING) s1 = Inr s2"
      using reset applicationUpdate_succeeds by blast
    then have res: "processApplication e allocatedBy application st s
             = (Inr (st\<lparr>errors := errors st + 1\<rparr>), s2)"
      using tp Inl by (simp add: processApplication_def)
    have "frame ?a s1 s2" and st2: "statusOf s2 ?a
            = Some (if app_status (row application) = WAITLISTED then WAITLISTED else PENDING)"
      using applicationUpdate_frame [OF upd] by simp_all
    then have "frame ?a s s2"
      using f1 frame_trans by blast
    then show ?thesis
      using res st2 tp Inl by auto
  qed
qed

section \<open>A failing request does not stop the run\<close>


lemma statusOf_row:
  assumes "distinct (map app_id (applications s))" and "r \<in> set (applications s)"
  shows "statusOf s (app_id r) = Some (app_status r)"
proof -
  have "find (\<lambda>x. app_id x = app_id r) (applications s) \<noteq> None"
    using assms(2) by (auto simp: find_None_iff)
  then obtain r' where r': "find (\<lambda>x. app_id x = app_id r) (applications s) = Some r'"
    by blast
  then have "r' \<in> set (applications s)" "app_id r' = app_id r"
    by (auto simp: find_Some_iff)
  then have "r' = r"
    using assms by (meson distinct_map inj_onD)
  then show ?thesis using r' by (simp add: statusOf_def)
qed

lemma findApplications_rows:
  "set (map row (findApplications e s)) = {r \<in> set (applications s). selected r}"
proof -
  have "set (map row (findApplications e s)) = set_mset (mset (map row (findApplications e s)))"
    by simp
  also have "\<dots> = set_mset (mset (filter selected (applications s)))"
    by (simp only: map_row_findApplications mset_orderBy)
  finally show ?thesis by simp
qed

lemma findApplications_distinct:
  assumes "distinct (map app_id (applications s))"
  shows "distinct (map (app_id \<circ> row) (findApplications e s))"
proof -
  have "mset (map app_id (map row (findApplications e s)))
          = mset (map app_id (filter selected (applications s)))"
    by (simp only: map_row_findApplications mset_map mset_orderBy)
  moreover have "distinct (map app_id (filter selected (applications s)))"
    using assms by (rule distinct_map_filter)
  ultimately have "distinct (map app_id (map row (findApplications e s)))"
    by (metis mset_eq_imp_distinct_iff)
  then show ?thesis by (simp only: map_map)
qed

lemma findApplications_length:
  "length (findApplications e s) = length (filter selected (applications s))"
proof -
  have "length (map row (findApplications e s)) = length (filter selected (applications s))"
    by (metis map_row_findApplications mset_orderBy mset_eq_length)
  then show ?thesis by simp
qed






text \<open>
  A store error inside the transaction of allocateBed does not reach the handler of the
  runner: allocateBed answers false, the request is put on the waitlist and counted
  as waitlisted, and no error is counted.
\<close>

lemma transaction_error_is_waitlisted:
  "fst (runAllocation (faultAt ''a2'' CreateAllocation) ''admin'' demoStore)
     = Inr \<lparr>allocated = 1, waitlisted = 1, errors = 0\<rparr>
   \<and> statusOf (snd (runAllocation (faultAt ''a2'' CreateAllocation) ''admin'' demoStore)) ''a2''
       = Some WAITLISTED"
  by code_simp

section \<open>Running the batch twice\<close>

lemma preferredHostelsOf_row: "preferredHostelsOf x = hostelsOfRow (row x)"
  by (simp add: hostelsOfRow_def preferredHostelsOf_def)

lemma candidateBeds_empty_noCandidate:
  "candidateBeds s x = [] \<longleftrightarrow> noCandidateFor s (hostelsOfRow (row x))"
  by (simp add: candidateBeds_empty_iff noCandidateFor_def preferredHostelsOf_row)

lemma bedWhere_cong:
  assumes "rooms s' = rooms s" and "blocks s' = blocks s"
  shows "bedWhere s' hs b = bedWhere s hs b"
proof -
  have "baseRoomFilter s' hs r = baseRoomFilter s hs r" for r
    by (simp add: baseRoomFilter_def findBlock_def assms(2))
  then show ?thesis
    by (simp add: bedWhere_def findRoom_def assms(1) split: option.splits)
qed

lemma noCandidateFor_cong:
  assumes "beds s' = beds s" and "rooms s' = rooms s" and "blocks s' = blocks s"
  shows "noCandidateFor s' hs = noCandidateFor s hs"
  by (simp add: noCandidateFor_def assms(1) bedWhere_cong [OF assms(2,3)])

lemma keeps_refl: "keeps a s s"
  by (simp add: keeps_def rowsKept_def)

lemma keeps_trans: "keeps a s s1 \<Longrightarrow> keeps a s1 s2 \<Longrightarrow> keeps a s s2"
  by (simp add: keeps_def rowsKept_def)

lemma keeps_same_tables:
  assumes "users s' = users s" and "applications s' = applications s" and "beds s' = beds s"
    and "rooms s' = rooms s" and "blocks s' = blocks s"
    and "\<forall>i. i \<noteq> a \<and> onWaitlist s i \<longrightarrow> onWaitlist s' i"
  shows "keeps a s s'"
  using assms(1,2,6) by (simp add: keeps_def rowsKept_def noCandidateFor_cong [OF assms(3,4,5)])

lemma rows_status_update:
  "map (\<lambda>r. r\<lparr>app_status := PENDING\<rparr>)
     (map (\<lambda>r. if app_id r = i then r\<lparr>app_status := st\<rparr> else r) rows)
   = map (\<lambda>r. r\<lparr>app_status := PENDING\<rparr>) rows"
  by (induction rows) auto

lemma applicationUpdate_keeps:
  assumes "applicationUpdate failing a st s = Inr s'"
  shows "keeps a s s'"
proof -
  have s': "s' = s\<lparr>applications := map (\<lambda>r. if app_id r = a then r\<lparr>app_status := st\<rparr> else r)
                                      (applications s)\<rparr>"
    using assms by (auto simp: applicationUpdate_def split: if_splits)
  have "noCandidateFor s' hs = noCandidateFor s hs" for hs
    unfolding s' by (intro noCandidateFor_cong) simp_all
  then show ?thesis
    unfolding keeps_def rowsKept_def
    by (simp add: s' rows_status_update onWaitlist_def)
qed

lemma committed_noCandidate:
  assumes "noCandidateFor s hs"
  shows "noCandidateFor (committed e application allocatedBy bd s) hs"
  unfolding noCandidateFor_def
proof
  fix b assume b: "b \<in> set (beds (committed e application allocatedBy bd s))"
  let ?s' = "committed e application allocatedBy bd s"
  have tables: "rooms ?s' = rooms s" "blocks ?s' = blocks s"
    by (simp_all add: committed_def)
  have "b \<in> set (beds s) \<or> bed_occupiedBy b \<noteq> None"
    using b by (auto simp: committed_def)
  then show "\<not> bedWhere ?s' hs b"
  proof
    assume "b \<in> set (beds s)"
    then have "\<not> bedWhere s hs b"
      using assms by (simp add: noCandidateFor_def)
    then show ?thesis
      by (simp add: bedWhere_cong [OF tables])
  next
    assume "bed_occupiedBy b \<noteq> None"
    then show ?thesis by (simp add: bedWhere_def)
  qed
qed

lemma committed_keeps:
  "keeps (app_id (row application)) s (committed e application allocatedBy bd s)"
proof -
  let ?s' = "committed e application allocatedBy bd s"
  have "users ?s' = users s"
    by (simp add: committed_def)
  moreover have "rowsKept s ?s'"
    by (simp add: rowsKept_def committed_def rows_status_update)
  moreover have "\<forall>i. i \<noteq> app_id (row application) \<and> onWaitlist s i \<longrightarrow> onWaitlist ?s' i"
    by (auto simp: onWaitlist_def committed_def)
  ultimately show ?thesis
    unfolding keeps_def using committed_noCandidate by blast
qed

lemma allocateBed_keeps:
  "keeps (app_id (row application)) s (snd (allocateBed e s application allocatedBy))"
  using allocateBed_cases [of e s application allocatedBy] committed_keeps keeps_refl
  by (metis snd_conv)

lemma waitlistUpsert_onWaitlist:
  "onWaitlist (waitlistUpsert a r h rt s) i \<longleftrightarrow> i = a \<or> onWaitlist s i"
proof (cases "find (\<lambda>w. wl_applicationId w = a) (waitlistEntries s)")
  case None
  then show ?thesis by (auto simp: onWaitlist_def waitlistUpsert_def)
next
  case (Some w0)
  then have "w0 \<in> set (waitlistEntries s)" "wl_applicationId w0 = a"
    by (auto simp: find_Some_iff)
  then have "onWaitlist s a"
    by (auto simp: onWaitlist_def)
  moreover have "map wl_applicationId
          (map (\<lambda>w. if wl_applicationId w = a then w\<lparr>wl_rank := r\<rparr> else w) (waitlistEntries s))
        = map wl_applicationId (waitlistEntries s)"
    by (induction "waitlistEntries s") auto
  ultimately show ?thesis
    using Some by (auto simp: onWaitlist_def waitlistUpsert_def)
qed

lemma waitlistUpsert_keeps: "keeps a s (waitlistUpsert a r h rt s)"
  by (intro keeps_same_tables) (simp_all add: waitlistUpsert_tables waitlistUpsert_onWaitlist)

lemma addToWaitlist_keeps:
  "keeps (app_id (row application)) s (snd (addToWaitlist e s application))"
proof -
  let ?a = "app_id (row application)"
  define s1 where "s1 = waitlistUpsert ?a (newRank s application)
                  (waitlistHostel application) (waitlistRoomType application) s"
  have k1: "keeps ?a s s1"
    unfolding s1_def by (rule waitlistUpsert_keeps)
  consider (early) "addToWaitlist e s application = (Inl StoreError, s)"
    | (upserted) err where "addToWaitlist e s application = (Inl err, s1)"
    | (marked) s2 where "applicationUpdate (fails e ?a MarkWaitlisted) ?a WAITLISTED s1 = Inr s2"
        "addToWaitlist e s application
               = (if student application = None then Inl TypeError else Inr (), s2)"
    using addToWaitlist_cases [OF s1_def, of e] by blast
  then show ?thesis
  proof cases
    case early
    then show ?thesis by (simp add: keeps_refl)
  next
    case upserted
    then show ?thesis using k1 by simp
  next
    case marked
    then show ?thesis
      using k1 applicationUpdate_keeps [OF marked(1)] keeps_trans by auto
  qed
qed

lemma tryProcess_keeps:
  "keeps (app_id (row application)) s (snd (tryProcess e allocatedBy application st s))"
proof (cases "applicationUpdate (fails e (app_id (row application)) MarkInProgress)
                (app_id (row application)) IN_PROGRESS s")
  case (Inl err)
  then show ?thesis by (simp add: tryProcess_def keeps_refl)
next
  case (Inr s1)
  let ?a = "app_id (row application)"
  have k1: "keeps ?a s s1"
    using Inr by (rule applicationUpdate_keeps)
  obtain ok s2 where alloc: "allocateBed e s1 application allocatedBy = (ok, s2)"
    by (cases "allocateBed e s1 application allocatedBy")
  have k2: "keeps ?a s1 s2"
    using allocateBed_keeps [of application s1 e allocatedBy] alloc by simp
  obtain r s3 where wl: "addToWaitlist e s2 application = (r, s3)"
    by (cases "addToWaitlist e s2 application")
  have k3: "keeps ?a s2 s3"
    using addToWaitlist_keeps [of application s2 e] wl by simp
  have "snd (tryProcess e allocatedBy application st s) = (if ok then s2 else s3)"
    using Inr alloc wl by (cases r) (simp_all add: tryProcess_def)
  then show ?thesis
    using k1 k2 k3 keeps_trans by (cases ok) auto
qed

lemma processApplication_keeps:
  "keeps (app_id (row application)) s (snd (processApplication e allocatedBy application st s))"
proof -
  let ?a = "app_id (row application)"
  obtain r s1 where tp: "tryProcess e allocatedBy application st s = (r, s1)"
    by (cases "tryProcess e allocatedBy application st s")
  have k1: "keeps ?a s s1"
    using tryProcess_keeps [of application s e allocatedBy st] tp by simp
  show ?thesis
  proof (cases r)
    case (Inr st')
    then show ?thesis using tp k1 by (simp add: processApplication_def)
  next
    case (Inl err)
    show ?thesis
    proof (cases "applicationUpdate (fails e ?a ResetStatus) ?a
            (if app_status (row application) = WAITLISTED then WAITLISTED else PENDING) s1")
      case (Inl err2)
      then show ?thesis
        using tp \<open>r = Inl err\<close> k1 by (simp add: processApplication_def)
    next
      case (Inr s2)
      then have "keeps ?a s1 s2" by (rule applicationUpdate_keeps)
      then show ?thesis
        using tp \<open>r = Inl err\<close> Inr k1 keeps_trans by (auto simp: processApplication_def)
    qed
  qed
qed

lemma lockLoop_quiet:
  assumes "lockOutcome e a (bed_id c) = Acquired" and "c \<in> set (beds s)"
    and "bed_occupiedBy c = None"
  shows "lockLoop e a s (c # cs) = Some c"
proof -
  have "c \<in> set (filter (\<lambda>b. bed_id b = bed_id c \<and> bed_occupiedBy b = None) (beds s))"
    using assms(2,3) by simp
  then have "filter (\<lambda>b. bed_id b = bed_id c \<and> bed_occupiedBy b = None) (beds s) \<noteq> []"
    by (metis empty_iff list.set(1))
  then have "take 1 (filter (\<lambda>b. bed_id b = bed_id c \<and> bed_occupiedBy b = None) (beds s)) \<noteq> []"
    by simp
  then show ?thesis
    using assms(1) by (simp add: lockQuery_def)
qed

lemma allocateWrites_quiet:
  assumes "\<forall>op. \<not> fails e (app_id (row application)) op"
    and "find (\<lambda>b. bed_id b = bed_id bd) (beds s) \<noteq> None"
    and "statusOf s (app_id (row application)) \<noteq> None"
  shows "\<exists>r. allocateWrites e application allocatedBy bd s
            = Inr (Some r, committed e application allocatedBy bd s)"
proof -
  have "allocateWrites e application allocatedBy bd s \<noteq> Inl StoreError"
    using assms
    by (simp add: allocateWrites_def Let_def bindE_def bedUpdate_def applicationUpdate_def
        waitlistDeleteMany_def allocationCreate_def auditLogCreate_def statusOf_def)
  then show ?thesis
    using allocateWrites_cases [of e application allocatedBy bd s] by blast
qed

lemma allocateBed_quiet:
  assumes "quiet e" and "statusOf s (app_id (row application)) \<noteq> None"
    and "student application \<noteq> None" and "candidateBeds s application \<noteq> []"
  shows "fst (allocateBed e s application allocatedBy)"
proof -
  let ?a = "app_id (row application)"
  obtain c cs where cands: "candidateBeds s application = c # cs"
    using assms(4) by (cases "candidateBeds s application") auto
  then have "c \<in> set (candidateBeds s application)" by simp
  then have c: "c \<in> set (beds s)" "bed_occupiedBy c = None"
    using candidateBeds_subset [of s application] by (auto simp: bedWhere_def)
  have nofault: "\<forall>op. \<not> fails e ?a op" and locks: "lockOutcome e ?a (bed_id c) = Acquired"
    using assms(1) by (simp_all add: quiet_def)
  have locked: "lockLoop e ?a s (candidateBeds s application) = Some c"
    unfolding cands using locks c by (rule lockLoop_quiet)
  have "find (\<lambda>b. bed_id b = bed_id c) (beds s) \<noteq> None"
    using c(1) by (auto simp: find_None_iff)
  then obtain r where "allocateWrites e application allocatedBy c s
            = Inr (Some r, committed e application allocatedBy c s)"
    using allocateWrites_quiet [OF nofault _ assms(2)] by blast
  then have "allocateTx e application allocatedBy s
            = Inr (Some r, committed e application allocatedBy c s)"
    using locked cands nofault by (simp add: allocateTx_def Let_def)
  then show ?thesis
    using nofault assms(3)
    by (auto simp: allocateBed_def transaction_def sendAllocationNotification_def)
qed

lemma addToWaitlist_quiet:
  assumes "\<forall>op. \<not> fails e (app_id (row application)) op"
    and "statusOf s (app_id (row application)) \<noteq> None"
    and "student application \<noteq> None"
  shows "fst (addToWaitlist e s application) = Inr ()
     \<and> beds (snd (addToWaitlist e s application)) = beds s
     \<and> rooms (snd (addToWaitlist e s application)) = rooms s
     \<and> blocks (snd (addToWaitlist e s application)) = blocks s
     \<and> allocations (snd (addToWaitlist e s application)) = allocations s
     \<and> waitlistEntries (snd (addToWaitlist e s application))
         = waitlistEntries (waitlistUpsert (app_id (row application)) (newRank s application)
             (waitlistHostel application) (waitlistRoomType application) s)"
proof -
  let ?a = "app_id (row application)"
  define s1 where "s1 = waitlistUpsert ?a (newRank s application)
                  (waitlistHostel application) (waitlistRoomType application) s"
  have "statusOf s1 ?a \<noteq> None"
    using assms(2) by (simp add: s1_def statusOf_def waitlistUpsert_tables)
  then obtain s2 where upd: "applicationUpdate (fails e ?a MarkWaitlisted) ?a WAITLISTED s1 = Inr s2"
    using assms(1) applicationUpdate_succeeds by blast
  have res: "addToWaitlist e s application = (Inr (), s2)"
    using assms(1,3) upd
    by (auto simp: addToWaitlist_def Let_def s1_def sendWaitlistNotification_def)
  show ?thesis
    unfolding res using applicationUpdate_tables [OF upd]
    by (simp add: s1_def waitlistUpsert_tables)
qed

lemma erase_rank_upsert:
  assumes "onWaitlist s a"
  shows "map (\<lambda>w. w\<lparr>wl_rank := 0\<rparr>) (waitlistEntries (waitlistUpsert a r h rt s))
         = map (\<lambda>w. w\<lparr>wl_rank := 0\<rparr>) (waitlistEntries s)"
proof -
  have "find (\<lambda>w. wl_applicationId w = a) (waitlistEntries s) \<noteq> None"
    using assms by (auto simp: onWaitlist_def find_None_iff)
  moreover have "map (\<lambda>w. w\<lparr>wl_rank := 0\<rparr>)
          (map (\<lambda>w. if wl_applicationId w = a then w\<lparr>wl_rank := r\<rparr> else w) ws)
        = map (\<lambda>w. w\<lparr>wl_rank := 0\<rparr>) ws" for ws
    by (induction ws) auto
  ultimately show ?thesis
    by (simp add: waitlistUpsert_def)
qed

text \<open>
  One request in a quiet run: it is allocated, or it found no candidate bed and is put
  on the waitlist, in which case beds and allocations are as before.
\<close>

lemma processApplication_quiet:
  assumes q: "quiet e" and known: "statusOf s (app_id (row x)) \<noteq> None"
    and loaded: "student x \<noteq> None"
  shows "\<exists>st' s'. processApplication e allocatedBy x st s = (Inr st', s')
     \<and> ((st' = st\<lparr>allocated := allocated st + 1\<rparr>
           \<and> statusOf s' (app_id (row x)) = Some ALLOCATED
           \<and> candidateBeds s x \<noteq> [])
        \<or> (st' = st\<lparr>waitlisted := waitlisted st + 1\<rparr>
           \<and> statusOf s' (app_id (row x)) = Some WAITLISTED
           \<and> candidateBeds s x = []
           \<and> onWaitlist s' (app_id (row x))
           \<and> beds s' = beds s \<and> rooms s' = rooms s \<and> blocks s' = blocks s
           \<and> allocations s' = allocations s
           \<and> (onWaitlist s (app_id (row x)) \<longrightarrow>
                map (\<lambda>w. w\<lparr>wl_rank := 0\<rparr>) (waitlistEntries s')
                  = map (\<lambda>w. w\<lparr>wl_rank := 0\<rparr>) (waitlistEntries s))))"
proof -
  let ?a = "app_id (row x)"
  have nofault: "\<forall>op. \<not> fails e ?a op"
    using q by (simp add: quiet_def)
  obtain s1 where mark: "applicationUpdate (fails e ?a MarkInProgress) ?a IN_PROGRESS s = Inr s1"
    using nofault known applicationUpdate_succeeds by blast
  have t1: "beds s1 = beds s" "rooms s1 = rooms s" "blocks s1 = blocks s"
    "allocations s1 = allocations s" "waitlistEntries s1 = waitlistEntries s"
    using applicationUpdate_tables [OF mark] by simp_all
  have known1: "statusOf s1 ?a \<noteq> None"
    using applicationUpdate_frame [OF mark] by simp
  have cands: "candidateBeds s1 x = candidateBeds s x"
    using t1 by (intro candidateBeds_cong) simp_all
  show ?thesis
  proof (cases "candidateBeds s x = []")
    case False
    then have ok: "fst (allocateBed e s1 x allocatedBy)"
      using allocateBed_quiet [OF q known1 loaded] cands by simp
    obtain s2 where alloc: "allocateBed e s1 x allocatedBy = (True, s2)"
      using ok by (cases "allocateBed e s1 x allocatedBy") auto
    have "statusOf s2 ?a = Some ALLOCATED"
      using allocateBed_frame [OF known1, of e allocatedBy] alloc by simp
    moreover have "processApplication e allocatedBy x st s
                     = (Inr (st\<lparr>allocated := allocated st + 1\<rparr>), s2)"
      using mark alloc by (simp add: processApplication_def tryProcess_def)
    ultimately show ?thesis
      using False by blast
  next
    case True
    then have alloc: "allocateBed e s1 x allocatedBy = (False, s1)"
      using cands by (simp add: allocateBed_no_candidate)
    obtain r s3 where wl: "addToWaitlist e s1 x = (r, s3)"
      by (cases "addToWaitlist e s1 x")
    have w: "r = Inr ()" "beds s3 = beds s1" "rooms s3 = rooms s1" "blocks s3 = blocks s1"
      "allocations s3 = allocations s1"
      "waitlistEntries s3 = waitlistEntries (waitlistUpsert ?a (newRank s1 x)
             (waitlistHostel x) (waitlistRoomType x) s1)"
      using addToWaitlist_quiet [OF nofault known1 loaded] wl by simp_all
    have st3: "statusOf s3 ?a = Some WAITLISTED"
      using addToWaitlist_frame [of x s1 e] wl w(1) by simp
    have on3: "onWaitlist s3 ?a"
      unfolding onWaitlist_def w(6)
      using waitlistUpsert_onWaitlist [of ?a "newRank s1 x" "waitlistHostel x"
          "waitlistRoomType x" s1 ?a]
      by (simp add: onWaitlist_def)
    have same: "map (\<lambda>w. w\<lparr>wl_rank := 0\<rparr>) (waitlistEntries s3)
                  = map (\<lambda>w. w\<lparr>wl_rank := 0\<rparr>) (waitlistEntries s)"
      if "onWaitlist s ?a"
    proof -
      have "onWaitlist s1 ?a"
        using that by (simp add: onWaitlist_def t1)
      then show ?thesis
        unfolding w(6) by (simp add: erase_rank_upsert t1)
    qed
    have "processApplication e allocatedBy x st s
            = (Inr (st\<lparr>waitlisted := waitlisted st + 1\<rparr>), s3)"
      using mark alloc wl w(1) by (simp add: processApplication_def tryProcess_def)
    then show ?thesis
      using True st3 on3 w t1 same by auto
  qed
qed

lemma forApplications_quiet:
  assumes q: "quiet e"
    and "distinct (map (app_id \<circ> row) as)"
    and "\<forall>x \<in> set as. statusOf s (app_id (row x)) \<noteq> None \<and> student x \<noteq> None"
  shows "\<exists>st' s'. forApplications e allocatedBy as st s = (Inr st', s')
     \<and> users s' = users s \<and> rowsKept s s'
     \<and> (\<forall>hs. noCandidateFor s hs \<longrightarrow> noCandidateFor s' hs)
     \<and> (\<forall>i. i \<notin> (app_id \<circ> row) ` set as \<and> onWaitlist s i \<longrightarrow> onWaitlist s' i)
     \<and> (\<forall>j. j \<notin> (app_id \<circ> row) ` set as \<longrightarrow> statusOf s' j = statusOf s j)
     \<and> (\<forall>x \<in> set as. statusOf s' (app_id (row x)) = Some ALLOCATED
           \<or> (statusOf s' (app_id (row x)) = Some WAITLISTED
               \<and> noCandidateFor s' (hostelsOfRow (row x))
               \<and> onWaitlist s' (app_id (row x))))"
  using assms(2,3)
proof (induction as arbitrary: st s)
  case Nil
  then show ?case by (simp add: rowsKept_def)
next
  case (Cons x rest)
  let ?a = "app_id (row x)"
  have known: "statusOf s ?a \<noteq> None" and loaded: "student x \<noteq> None"
    using Cons.prems(2) by simp_all
  have reset: "\<not> fails e ?a ResetStatus"
    using q by (simp add: quiet_def)
  obtain st1 s1 where step: "processApplication e allocatedBy x st s = (Inr st1, s1)"
    and f1: "frame ?a s s1"
    using processApplication_frame [OF known reset, of allocatedBy st] by blast
  have k1: "keeps ?a s s1"
    using processApplication_keeps [of x s e allocatedBy st] step by simp
  have out1: "statusOf s1 ?a = Some ALLOCATED
      \<or> (statusOf s1 ?a = Some WAITLISTED \<and> noCandidateFor s1 (hostelsOfRow (row x))
          \<and> onWaitlist s1 ?a)"
  proof -
    have "statusOf s1 ?a = Some ALLOCATED
      \<or> (statusOf s1 ?a = Some WAITLISTED \<and> candidateBeds s x = [] \<and> onWaitlist s1 ?a)"
      using processApplication_quiet [OF q known loaded, of allocatedBy st] step by auto
    moreover have "noCandidateFor s1 (hostelsOfRow (row x))" if "candidateBeds s x = []"
      using that k1 by (simp add: keeps_def candidateBeds_empty_noCandidate)
    ultimately show ?thesis by blast
  qed
  have dist: "distinct (map (app_id \<circ> row) rest)" and fresh: "?a \<notin> (app_id \<circ> row) ` set rest"
    using Cons.prems(1) by (simp_all add: comp_def)
  have known1: "\<forall>y \<in> set rest. statusOf s1 (app_id (row y)) \<noteq> None \<and> student y \<noteq> None"
    using Cons.prems(2) frame_known [OF f1] by simp
  obtain st' s' where loop: "forApplications e allocatedBy rest st1 s1 = (Inr st', s')"
    and users: "users s' = users s1" and rows: "rowsKept s1 s'"
    and nocand: "\<forall>hs. noCandidateFor s1 hs \<longrightarrow> noCandidateFor s' hs"
    and onwl: "\<forall>i. i \<notin> (app_id \<circ> row) ` set rest \<and> onWaitlist s1 i \<longrightarrow> onWaitlist s' i"
    and others: "\<forall>j. j \<notin> (app_id \<circ> row) ` set rest \<longrightarrow> statusOf s' j = statusOf s1 j"
    and own: "\<forall>y \<in> set rest. statusOf s' (app_id (row y)) = Some ALLOCATED
           \<or> (statusOf s' (app_id (row y)) = Some WAITLISTED
               \<and> noCandidateFor s' (hostelsOfRow (row y))
               \<and> onWaitlist s' (app_id (row y)))"
    using Cons.IH [OF dist known1, of st1] by blast
  have res: "forApplications e allocatedBy (x # rest) st s = (Inr st', s')"
    using step loop by simp
  have u: "users s' = users s"
    using users k1 by (simp add: keeps_def)
  have r: "rowsKept s s'"
    using rows k1 by (simp add: keeps_def rowsKept_def)
  have n: "\<forall>hs. noCandidateFor s hs \<longrightarrow> noCandidateFor s' hs"
    using nocand k1 by (simp add: keeps_def)
  have w: "\<forall>i. i \<notin> (app_id \<circ> row) ` set (x # rest) \<and> onWaitlist s i \<longrightarrow> onWaitlist s' i"
  proof (intro allI impI, elim conjE)
    fix i assume "i \<notin> (app_id \<circ> row) ` set (x # rest)" and on: "onWaitlist s i"
    then have i: "i \<noteq> ?a" "i \<notin> (app_id \<circ> row) ` set rest" by auto
    then have "onWaitlist s1 i"
      using on k1 by (simp add: keeps_def)
    then show "onWaitlist s' i"
      using onwl i(2) by blast
  qed
  have o: "\<forall>j. j \<notin> (app_id \<circ> row) ` set (x # rest) \<longrightarrow> statusOf s' j = statusOf s j"
  proof (intro allI impI)
    fix j assume "j \<notin> (app_id \<circ> row) ` set (x # rest)"
    then have "j \<noteq> ?a" "j \<notin> (app_id \<circ> row) ` set rest" by auto
    then show "statusOf s' j = statusOf s j"
      using others f1 by (simp add: frame_def)
  qed
  have "statusOf s' ?a = statusOf s1 ?a"
    using others fresh by blast
  moreover have "noCandidateFor s1 (hostelsOfRow (row x)) \<longrightarrow> noCandidateFor s' (hostelsOfRow (row x))"
    using nocand by blast
  moreover have "onWaitlist s1 ?a \<longrightarrow> onWaitlist s' ?a"
    using onwl fresh by blast
  ultimately have "statusOf s' ?a = Some ALLOCATED
           \<or> (statusOf s' ?a = Some WAITLISTED
               \<and> noCandidateFor s' (hostelsOfRow (row x)) \<and> onWaitlist s' ?a)"
    using out1 by auto
  then have a: "\<forall>y \<in> set (x # rest). statusOf s' (app_id (row y)) = Some ALLOCATED
           \<or> (statusOf s' (app_id (row y)) = Some WAITLISTED
               \<and> noCandidateFor s' (hostelsOfRow (row y))
               \<and> onWaitlist s' (app_id (row y)))"
    using own by simp
  show ?case
    using res u r n w o a by blast
qed

lemma onWaitlist_erase:
  assumes "map (\<lambda>w. w\<lparr>wl_rank := 0\<rparr>) (waitlistEntries s')
           = map (\<lambda>w. w\<lparr>wl_rank := 0\<rparr>) (waitlistEntries s)"
  shows "onWaitlist s' i = onWaitlist s i"
proof -
  have "map wl_applicationId ws = map wl_applicationId (map (\<lambda>w. w\<lparr>wl_rank := 0\<rparr>) ws)" for ws
    by (induction ws) auto
  then have "map wl_applicationId (waitlistEntries s') = map wl_applicationId (waitlistEntries s)"
    using assms by metis
  then show ?thesis by (simp add: onWaitlist_def)
qed

lemma forApplications_rerun:
  assumes q: "quiet e"
    and "\<forall>x \<in> set as. statusOf s (app_id (row x)) \<noteq> None \<and> student x \<noteq> None
            \<and> candidateBeds s x = [] \<and> onWaitlist s (app_id (row x))"
  shows "\<exists>s'. forApplications e allocatedBy as st s
            = (Inr (st\<lparr>waitlisted := waitlisted st + length as\<rparr>), s')
     \<and> beds s' = beds s \<and> rooms s' = rooms s \<and> blocks s' = blocks s
     \<and> allocations s' = allocations s
     \<and> map (\<lambda>w. w\<lparr>wl_rank := 0\<rparr>) (waitlistEntries s')
         = map (\<lambda>w. w\<lparr>wl_rank := 0\<rparr>) (waitlistEntries s)"
  using assms(2)
proof (induction as arbitrary: st s)
  case Nil
  then show ?case by simp
next
  case (Cons x rest)
  let ?a = "app_id (row x)"
  have known: "statusOf s ?a \<noteq> None" and loaded: "student x \<noteq> None"
    and none: "candidateBeds s x = []" and on: "onWaitlist s ?a"
    using Cons.prems by simp_all
  have reset: "\<not> fails e ?a ResetStatus"
    using q by (simp add: quiet_def)
  obtain st1 s1 where step: "processApplication e allocatedBy x st s = (Inr st1, s1)"
    and f1: "frame ?a s s1"
    using processApplication_frame [OF known reset, of allocatedBy st] by blast
  have out: "st1 = st\<lparr>waitlisted := waitlisted st + 1\<rparr>" "beds s1 = beds s" "rooms s1 = rooms s"
    "blocks s1 = blocks s" "allocations s1 = allocations s"
    "map (\<lambda>w. w\<lparr>wl_rank := 0\<rparr>) (waitlistEntries s1)
       = map (\<lambda>w. w\<lparr>wl_rank := 0\<rparr>) (waitlistEntries s)"
    using processApplication_quiet [OF q known loaded, of allocatedBy st] step none on by auto
  have prems1: "\<forall>y \<in> set rest. statusOf s1 (app_id (row y)) \<noteq> None \<and> student y \<noteq> None
            \<and> candidateBeds s1 y = [] \<and> onWaitlist s1 (app_id (row y))"
  proof
    fix y assume y: "y \<in> set rest"
    have "candidateBeds s1 y = candidateBeds s y"
      using out(2,3,4) by (intro candidateBeds_cong) simp_all
    then show "statusOf s1 (app_id (row y)) \<noteq> None \<and> student y \<noteq> None
            \<and> candidateBeds s1 y = [] \<and> onWaitlist s1 (app_id (row y))"
      using Cons.prems y frame_known [OF f1] onWaitlist_erase [OF out(6)] by simp
  qed
  obtain s' where loop: "forApplications e allocatedBy rest st1 s1
            = (Inr (st1\<lparr>waitlisted := waitlisted st1 + length rest\<rparr>), s')"
    and tables: "beds s' = beds s1" "rooms s' = rooms s1" "blocks s' = blocks s1"
      "allocations s' = allocations s1"
      "map (\<lambda>w. w\<lparr>wl_rank := 0\<rparr>) (waitlistEntries s')
         = map (\<lambda>w. w\<lparr>wl_rank := 0\<rparr>) (waitlistEntries s1)"
    using Cons.IH [OF prems1, of st1] by blast
  have "forApplications e allocatedBy (x # rest) st s
          = (Inr (st\<lparr>waitlisted := waitlisted st + length (x # rest)\<rparr>), s')"
    using step loop out(1) by simp
  then show ?case
    using tables out by simp
qed

lemma rowsKept_ids:
  assumes "rowsKept s s'"
  shows "map app_id (applications s') = map app_id (applications s)"
proof -
  have "map app_id rows = map app_id (map (\<lambda>r. r\<lparr>app_status := PENDING\<rparr>) rows)" for rows
    by (induction rows) auto
  then show ?thesis
    using assms unfolding rowsKept_def by metis
qed

lemma rowsKept_member:
  assumes "rowsKept s s'" and "r' \<in> set (applications s')"
  shows "\<exists>r \<in> set (applications s). app_id r = app_id r' \<and> app_studentId r = app_studentId r'
           \<and> app_preferences r = app_preferences r'"
proof -
  have "r'\<lparr>app_status := PENDING\<rparr> \<in> set (map (\<lambda>r. r\<lparr>app_status := PENDING\<rparr>) (applications s'))"
    using assms(2) by simp
  then have "r'\<lparr>app_status := PENDING\<rparr> \<in> set (map (\<lambda>r. r\<lparr>app_status := PENDING\<rparr>) (applications s))"
    using assms(1) by (simp only: rowsKept_def)
  then obtain r where r: "r \<in> set (applications s)"
      "r\<lparr>app_status := PENDING\<rparr> = r'\<lparr>app_status := PENDING\<rparr>"
    by auto
  have "app_id (r\<lparr>app_status := PENDING\<rparr>) = app_id (r'\<lparr>app_status := PENDING\<rparr>)"
    "app_studentId (r\<lparr>app_status := PENDING\<rparr>) = app_studentId (r'\<lparr>app_status := PENDING\<rparr>)"
    "app_preferences (r\<lparr>app_status := PENDING\<rparr>) = app_preferences (r'\<lparr>app_status := PENDING\<rparr>)"
    using r(2) by simp_all
  then show ?thesis
    using r(1) by auto
qed

lemma createAuditLog_tables:
  "users (createAuditLog failing actor action tt ti d s) = users s
   \<and> blocks (createAuditLog failing actor action tt ti d s) = blocks s
   \<and> rooms (createAuditLog failing actor action tt ti d s) = rooms s
   \<and> beds (createAuditLog failing actor action tt ti d s) = beds s
   \<and> applications (createAuditLog failing actor action tt ti d s) = applications s
   \<and> allocations (createAuditLog failing actor action tt ti d s) = allocations s
   \<and> waitlistEntries (createAuditLog failing actor action tt ti d s) = waitlistEntries s"
  by (simp add: createAuditLog_def auditLogCreate_def)

lemma findApplications_member:
  assumes "x \<in> set (findApplications e s)"
  shows "row x \<in> set (applications s) \<and> selected (row x)
         \<and> student x = findStudent s (app_studentId (row x))"
proof -
  have "row x \<in> set (map row (findApplications e s))"
    using assms by simp
  then have "row x \<in> set (applications s) \<and> selected (row x)"
    unfolding findApplications_rows by simp
  moreover have "student x = findStudent s (app_studentId (row x))"
    using assms by (auto simp: findApplications_def)
  ultimately show ?thesis by simp
qed

lemma hostelsOfRow_cong:
  "app_preferences r = app_preferences r' \<Longrightarrow> hostelsOfRow r = hostelsOfRow r'"
  by (simp add: hostelsOfRow_def preferredHostelsOf_def)

text \<open>
  After a quiet run no request is PENDING any more, and every WAITLISTED request has a
  waitlist entry and no candidate bed.
\<close>

lemma runAllocation_quiet:
  assumes q: "quiet e"
    and dist: "distinct (map app_id (applications s))"
    and fk: "\<forall>r \<in> set (applications s). findStudent s (app_studentId r) \<noteq> None"
  shows "distinct (map app_id (applications (snd (runAllocation e allocatedBy s))))
     \<and> (\<forall>r \<in> set (applications (snd (runAllocation e allocatedBy s))).
           findStudent (snd (runAllocation e allocatedBy s)) (app_studentId r) \<noteq> None)
     \<and> (\<forall>r \<in> set (applications (snd (runAllocation e allocatedBy s))). selected r \<longrightarrow>
           app_status r = WAITLISTED
           \<and> noCandidateFor (snd (runAllocation e allocatedBy s)) (hostelsOfRow r)
           \<and> onWaitlist (snd (runAllocation e allocatedBy s)) (app_id r))"
proof -
  let ?as = "findApplications e s"
  let ?st0 = "\<lparr>allocated = 0, waitlisted = 0, errors = 0\<rparr>"
  have pre: "\<forall>x \<in> set ?as. statusOf s (app_id (row x)) \<noteq> None \<and> student x \<noteq> None"
  proof
    fix x assume "x \<in> set ?as"
    then have m: "row x \<in> set (applications s)" "student x = findStudent s (app_studentId (row x))"
      using findApplications_member by blast+
    then show "statusOf s (app_id (row x)) \<noteq> None \<and> student x \<noteq> None"
      using fk unfolding statusOf_known by simp
  qed
  obtain st s' where loop: "forApplications e allocatedBy ?as ?st0 s = (Inr st, s')"
    and users: "users s' = users s" and rows: "rowsKept s s'"
    and others: "\<forall>j. j \<notin> (app_id \<circ> row) ` set ?as \<longrightarrow> statusOf s' j = statusOf s j"
    and own: "\<forall>x \<in> set ?as. statusOf s' (app_id (row x)) = Some ALLOCATED
           \<or> (statusOf s' (app_id (row x)) = Some WAITLISTED
               \<and> noCandidateFor s' (hostelsOfRow (row x))
               \<and> onWaitlist s' (app_id (row x)))"
    using forApplications_quiet [OF q findApplications_distinct [OF dist] pre, of allocatedBy ?st0]
    by blast
  let ?s1 = "snd (runAllocation e allocatedBy s)"
  have s1: "?s1 = createAuditLog (batchAuditFails e) allocatedBy CREATE ''ALLOCATION''
                       ''batch'' (BatchDetails st) s'"
    using q loop by (simp add: runAllocation_def quiet_def)
  have t: "users ?s1 = users s'" "applications ?s1 = applications s'" "beds ?s1 = beds s'"
    "rooms ?s1 = rooms s'" "blocks ?s1 = blocks s'" "waitlistEntries ?s1 = waitlistEntries s'"
    unfolding s1 by (simp_all add: createAuditLog_tables)
  have nc: "noCandidateFor ?s1 hs = noCandidateFor s' hs" for hs
    using t by (intro noCandidateFor_cong) simp_all
  have ow: "onWaitlist ?s1 i = onWaitlist s' i" for i
    by (simp add: onWaitlist_def t)
  have d': "distinct (map app_id (applications s'))"
    using dist rowsKept_ids [OF rows] by simp
  have c1: "distinct (map app_id (applications ?s1))"
    using d' t by simp
  have c2: "\<forall>r \<in> set (applications ?s1). findStudent ?s1 (app_studentId r) \<noteq> None"
  proof
    fix r' assume "r' \<in> set (applications ?s1)"
    then have "r' \<in> set (applications s')" using t by simp
    then obtain r where "r \<in> set (applications s)" "app_studentId r = app_studentId r'"
      using rowsKept_member [OF rows] by blast
    then have "findStudent s (app_studentId r') \<noteq> None"
      using fk by auto
    then show "findStudent ?s1 (app_studentId r') \<noteq> None"
      by (simp add: findStudent_def t users)
  qed
  have c3: "\<forall>r \<in> set (applications ?s1). selected r \<longrightarrow>
           app_status r = WAITLISTED \<and> noCandidateFor ?s1 (hostelsOfRow r)
           \<and> onWaitlist ?s1 (app_id r)"
  proof (intro ballI impI)
    fix r' assume "r' \<in> set (applications ?s1)" and sel: "selected r'"
    then have mem': "r' \<in> set (applications s')" using t by simp
    then obtain r where r: "r \<in> set (applications s)" "app_id r = app_id r'"
        "app_preferences r = app_preferences r'"
      using rowsKept_member [OF rows] by blast
    have now: "statusOf s' (app_id r') = Some (app_status r')"
      using statusOf_row [OF d' mem'] .
    have was: "statusOf s (app_id r) = Some (app_status r)"
      using statusOf_row [OF dist r(1)] .
    have "selected r"
    proof (rule ccontr)
      assume unsel: "\<not> selected r"
      have "app_id r \<notin> (app_id \<circ> row) ` set ?as"
      proof
        assume "app_id r \<in> (app_id \<circ> row) ` set ?as"
        then obtain x where x: "x \<in> set ?as" "app_id (row x) = app_id r" by auto
        then have rx: "row x \<in> set (applications s)" "selected (row x)"
          using findApplications_member by blast+
        then have "row x = r"
          using dist r(1) x(2) by (meson distinct_map inj_onD)
        then show False using rx(2) unsel by simp
      qed
      then have "statusOf s' (app_id r) = statusOf s (app_id r)"
        using others by blast
      then have "app_status r' = app_status r"
        using now was r(2) by simp
      then show False
        using sel unsel by (simp add: selected_def)
    qed
    then have "r \<in> set (map row ?as)"
      unfolding findApplications_rows using r(1) by simp
    then obtain x where x: "x \<in> set ?as" "row x = r" by auto
    then have "statusOf s' (app_id r) = Some ALLOCATED
           \<or> (statusOf s' (app_id r) = Some WAITLISTED
               \<and> noCandidateFor s' (hostelsOfRow r) \<and> onWaitlist s' (app_id r))"
      using own by blast
    moreover have "app_status r' \<noteq> ALLOCATED"
      using sel by (auto simp: selected_def)
    ultimately have "app_status r' = WAITLISTED \<and> noCandidateFor s' (hostelsOfRow r)
        \<and> onWaitlist s' (app_id r)"
      using now r(2) by auto
    then show "app_status r' = WAITLISTED \<and> noCandidateFor ?s1 (hostelsOfRow r')
           \<and> onWaitlist ?s1 (app_id r')"
      using hostelsOfRow_cong [OF r(3)] r(2) by (simp add: nc ow)
  qed
  show ?thesis
    by (intro conjI c1 c2 c3)
qed

text \<open>A quiet run on a store in which no selected request has a candidate bed.\<close>

lemma runAllocation_rerun:
  assumes q: "quiet e"
    and fk: "\<forall>r \<in> set (applications s). findStudent s (app_studentId r) \<noteq> None"
    and wl: "\<forall>r \<in> set (applications s). selected r \<longrightarrow>
               noCandidateFor s (hostelsOfRow r) \<and> onWaitlist s (app_id r)"
  shows "fst (runAllocation e allocatedBy s)
           = Inr \<lparr>allocated = 0, waitlisted = length (filter selected (applications s)), errors = 0\<rparr>
     \<and> beds (snd (runAllocation e allocatedBy s)) = beds s
     \<and> allocations (snd (runAllocation e allocatedBy s)) = allocations s
     \<and> map (\<lambda>w. w\<lparr>wl_rank := 0\<rparr>) (waitlistEntries (snd (runAllocation e allocatedBy s)))
         = map (\<lambda>w. w\<lparr>wl_rank := 0\<rparr>) (waitlistEntries s)"
proof -
  let ?as = "findApplications e s"
  let ?st0 = "\<lparr>allocated = 0, waitlisted = 0, errors = 0\<rparr>"
  have pre: "\<forall>x \<in> set ?as. statusOf s (app_id (row x)) \<noteq> None \<and> student x \<noteq> None
            \<and> candidateBeds s x = [] \<and> onWaitlist s (app_id (row x))"
  proof
    fix x assume "x \<in> set ?as"
    then have m: "row x \<in> set (applications s)" "selected (row x)"
        "student x = findStudent s (app_studentId (row x))"
      using findApplications_member by blast+
    then have "statusOf s (app_id (row x)) \<noteq> None"
      unfolding statusOf_known by simp
    moreover have "student x \<noteq> None"
      using m fk by simp
    moreover have "candidateBeds s x = []" "onWaitlist s (app_id (row x))"
      using m wl by (simp_all add: candidateBeds_empty_noCandidate)
    ultimately show "statusOf s (app_id (row x)) \<noteq> None \<and> student x \<noteq> None
            \<and> candidateBeds s x = [] \<and> onWaitlist s (app_id (row x))"
      by simp
  qed
  obtain s' where loop: "forApplications e allocatedBy ?as ?st0 s
            = (Inr (?st0\<lparr>waitlisted := waitlisted ?st0 + length ?as\<rparr>), s')"
    and tables: "beds s' = beds s" "allocations s' = allocations s"
      "map (\<lambda>w. w\<lparr>wl_rank := 0\<rparr>) (waitlistEntries s')
         = map (\<lambda>w. w\<lparr>wl_rank := 0\<rparr>) (waitlistEntries s)"
    using forApplications_rerun [OF q pre, of allocatedBy ?st0] by blast
  have run: "runAllocation e allocatedBy s
       = (Inr (?st0\<lparr>waitlisted := waitlisted ?st0 + length ?as\<rparr>),
          createAuditLog (batchAuditFails e) allocatedBy CREATE ''ALLOCATION'' ''batch''
            (BatchDetails (?st0\<lparr>waitlisted := waitlisted ?st0 + length ?as\<rparr>)) s')"
    using q loop by (simp add: runAllocation_def quiet_def)
  show ?thesis
    unfolding run using tables
    by (simp add: createAuditLog_tables findApplications_length)
qed

text \<open>
  C5, as the code has it. Two runs in succession on a store that answers every call,
  with unique application identities and every application's student known, nothing
  submitted or freed in between: after the first run no request is PENDING; the second
  run allocates nothing and counts no error, leaves every bed and every Allocation as it
  was, and keeps every WaitlistEntry with its request, hostel and room type. But it
  processes every WAITLISTED request again: it reports as waitlisted the number of
  WAITLISTED requests, and addToWaitlist assigns each of their entries a new rank, so the
  entries are the same only up to their rank.
\<close>

theorem rerun_reprocesses_waitlist:
  assumes "quiet e1" and "quiet e2"
    and "distinct (map app_id (applications s))"
    and "\<forall>r \<in> set (applications s). findStudent s (app_studentId r) \<noteq> None"
  shows "(\<forall>r \<in> set (applications (snd (runAllocation e1 by1 s))). app_status r \<noteq> PENDING)
     \<and> fst (runAllocation e2 by2 (snd (runAllocation e1 by1 s)))
         = Inr \<lparr>allocated = 0,
                waitlisted = length (filter (\<lambda>r. app_status r = WAITLISTED)
                                       (applications (snd (runAllocation e1 by1 s)))),
                errors = 0\<rparr>
     \<and> beds (snd (runAllocation e2 by2 (snd (runAllocation e1 by1 s))))
         = beds (snd (runAllocation e1 by1 s))
     \<and> allocations (snd (runAllocation e2 by2 (snd (runAllocation e1 by1 s))))
         = allocations (snd (runAllocation e1 by1 s))
     \<and> map (\<lambda>w. w\<lparr>wl_rank := 0\<rparr>)
           (waitlistEntries (snd (runAllocation e2 by2 (snd (runAllocation e1 by1 s)))))
         = map (\<lambda>w. w\<lparr>wl_rank := 0\<rparr>) (waitlistEntries (snd (runAllocation e1 by1 s)))"
proof -
  let ?s1 = "snd (runAllocation e1 by1 s)"
  have fk1: "\<forall>r \<in> set (applications ?s1). findStudent ?s1 (app_studentId r) \<noteq> None"
    and wl1: "\<forall>r \<in> set (applications ?s1). selected r \<longrightarrow>
           app_status r = WAITLISTED \<and> noCandidateFor ?s1 (hostelsOfRow r)
           \<and> onWaitlist ?s1 (app_id r)"
    using runAllocation_quiet [OF assms(1,3,4), of by1] by blast+
  have nopending: "\<forall>r \<in> set (applications ?s1). app_status r \<noteq> PENDING"
  proof
    fix r assume r: "r \<in> set (applications ?s1)"
    show "app_status r \<noteq> PENDING"
    proof
      assume "app_status r = PENDING"
      then have "selected r" "app_status r \<noteq> WAITLISTED"
        by (simp_all add: selected_def)
      then show False using wl1 r by blast
    qed
  qed
  have "filter selected (applications ?s1)
          = filter (\<lambda>r. app_status r = WAITLISTED) (applications ?s1)"
    using nopending by (intro filter_cong) (auto simp: selected_def)
  moreover have "\<forall>r \<in> set (applications ?s1). selected r \<longrightarrow>
               noCandidateFor ?s1 (hostelsOfRow r) \<and> onWaitlist ?s1 (app_id r)"
    using wl1 by blast
  ultimately show ?thesis
    using runAllocation_rerun [OF assms(2) fk1, of by2] nopending by simp
qed

theorem rerun_reprocesses_waitlist_witness:
  "distinct (map app_id (applications demoStore))
   \<and> map (findStudent demoStore \<circ> app_studentId) (applications demoStore)
       = [Some student1, Some student2]
   \<and> map app_status (applications (snd (runAllocation noFaults ''admin'' demoStore)))
       = [WAITLISTED, ALLOCATED]
   \<and> fst (runAllocation noFaults ''admin'' (snd (runAllocation noFaults ''admin'' demoStore)))
       = Inr \<lparr>allocated = 0, waitlisted = 1, errors = 0\<rparr>
   \<and> allocations (snd (runAllocation noFaults ''admin''
                         (snd (runAllocation noFaults ''admin'' demoStore))))
       = allocations (snd (runAllocation noFaults ''admin'' demoStore))"
proof -
  have q: "quiet noFaults"
    by (simp add: quiet_def noFaults_def)
  have d: "distinct (map app_id (applications demoStore))"
    by code_simp
  have fk: "\<forall>r \<in> set (applications demoStore). findStudent demoStore (app_studentId r) \<noteq> None"
    by code_simp
  have st: "map app_status (applications (snd (runAllocation noFaults ''admin'' demoStore)))
       = [WAITLISTED, ALLOCATED]"
    by code_simp
  have n: "length (filter (\<lambda>r. app_status r = WAITLISTED)
             (applications (snd (runAllocation noFaults ''admin'' demoStore)))) = 1"
    by code_simp
  note twice = rerun_reprocesses_waitlist [OF q q d fk, of "''admin''" "''admin''"]
  have "fst (runAllocation noFaults ''admin'' (snd (runAllocation noFaults ''admin'' demoStore)))
       = Inr \<lparr>allocated = 0, waitlisted = 1, errors = 0\<rparr>"
    using twice [THEN conjunct2, THEN conjunct1] by (simp only: n)
  moreover have "allocations (snd (runAllocation noFaults ''admin''
                         (snd (runAllocation noFaults ''admin'' demoStore))))
       = allocations (snd (runAllocation noFaults ''admin'' demoStore))"
    by (rule twice [THEN conjunct2, THEN conjunct2, THEN conjunct2, THEN conjunct1])
  moreover have "map (findStudent demoStore \<circ> app_studentId) (applications demoStore)
       = [Some student1, Some student2]"
    by code_simp
  ultimately show ?thesis
    using d st by (intro conjI)
qed

text \<open>
  C5 as written fails on the example hostel. The first run allocates the one free
  bed to a2 and puts a1 on the waitlist with rank 1. The second run, with nothing
  submitted or freed in between, reports waitlisted = 1, not 0, and a1's entry now has
  rank 2.
\<close>

theorem rerun_counterexample:
  "fst (runAllocation noFaults ''admin'' demoStore)
     = Inr \<lparr>allocated = 1, waitlisted = 1, errors = 0\<rparr>
   \<and> waitlistEntries (snd (runAllocation noFaults ''admin'' demoStore))
       = [\<lparr>wl_applicationId = ''a1'', wl_rank = 1, wl_hostelId = Some ''h1'', wl_roomType = None\<rparr>]
   \<and> fst (runAllocation noFaults ''admin'' (snd (runAllocation noFaults ''admin'' demoStore)))
       = Inr \<lparr>allocated = 0, waitlisted = 1, errors = 0\<rparr>
   \<and> waitlistEntries (snd (runAllocation noFaults ''admin''
                              (snd (runAllocation noFaults ''admin'' demoStore))))
       = [\<lparr>wl_applicationId = ''a1'', wl_rank = 2, wl_hostelId = Some ''h1'', wl_roomType = None\<rparr>]
   \<and> applications (snd (runAllocation noFaults ''admin''
                           (snd (runAllocation noFaults ''admin'' demoStore))))
       = applications (snd (runAllocation noFaults ''admin'' demoStore))
   \<and> beds (snd (runAllocation noFaults ''admin''
                   (snd (runAllocation noFaults ''admin'' demoStore))))
       = beds (snd (runAllocation noFaults ''admin'' demoStore))"
  by code_simp

section \<open>Requests without preferred hostels\<close>



end
